theory Spec2Isabelle
  imports Complex_Main
begin

section \<open>Numeric values and the external collaborators\<close>

text \<open>
  The file \<^verbatim>\<open>spec1d/eigenroots.hpp\<close> holds three function templates. Their floating
  point values are modelled by HOL reals: arithmetic is exact, the test
  \<^verbatim>\<open>lambda(i, 1) == 0.0\<close> is equality with zero, and \<^verbatim>\<open>std::sort\<close> is sorting in the
  linear order of the reals. Rounding, infinities and NaN are outside the model, and so
  is a division by a zero denominator (HOL gives 0 where IEEE gives an infinity or NaN).

  The numeric type a template is instantiated at only decides the element type of the
  matrices a solver declares; it is kept as a tag on every matrix. With exact values the
  tag has no effect on any result: precision and narrowing are not expressed here.
\<close>

datatype numtype = Float | Double | LongDouble

text \<open>
  Modelled from the spec: the dense matrix container \<^verbatim>\<open>Spec1DMatrix<T>\<close> of
  \<^verbatim>\<open>spec1dmatrix.hpp\<close> (resize, zero fill, identity initialisation, indexed element
  access). \<open>elem\<close> is the template argument \<^verbatim>\<open>T\<close>; \<open>cells\<close> holds the rows.
\<close>

record Spec1DMatrix =
  elem :: numtype
  nrows :: nat
  ncols :: nat
  cells :: "real list list"

definition new_matrix :: "numtype \<Rightarrow> Spec1DMatrix" where
  "new_matrix ty = \<lparr>elem = ty, nrows = 0, ncols = 0, cells = []\<rparr>"

definition resize :: "nat \<Rightarrow> nat \<Rightarrow> Spec1DMatrix \<Rightarrow> Spec1DMatrix" where
  "resize r c M = M\<lparr>nrows := r, ncols := c, cells := replicate r (replicate c 0)\<rparr>"

definition setZero :: "Spec1DMatrix \<Rightarrow> Spec1DMatrix" where
  "setZero M = M\<lparr>cells := replicate (nrows M) (replicate (ncols M) 0)\<rparr>"

definition setIdentity :: "nat \<Rightarrow> Spec1DMatrix \<Rightarrow> Spec1DMatrix" where
  "setIdentity n M =
     M\<lparr>nrows := n, ncols := n,
       cells := map (\<lambda>i. map (\<lambda>j. if i = j then 1 else 0) [0..<n]) [0..<n]\<rparr>"

text \<open>\<^verbatim>\<open>M(i, j)\<close> read and written.\<close>

definition mat_at :: "Spec1DMatrix \<Rightarrow> nat \<Rightarrow> nat \<Rightarrow> real" where
  "mat_at M i j = cells M ! i ! j"

definition mat_set :: "Spec1DMatrix \<Rightarrow> nat \<Rightarrow> nat \<Rightarrow> real \<Rightarrow> Spec1DMatrix" where
  "mat_set M i j v = M\<lparr>cells := (cells M)[i := (cells M ! i)[j := v]]\<rparr>"

text \<open>
  Modelled from the spec: \<^verbatim>\<open>Polynomial<real>\<close> of \<^verbatim>\<open>polynomial.hpp\<close>, an ordered
  sequence of coefficients from the constant term to the leading term; \<^verbatim>\<open>order()\<close>
  is the degree and \<^verbatim>\<open>poly[i]\<close> the coefficient of index \<open>i\<close>.
\<close>

type_synonym Polynomial = "real list"

definition order :: "Polynomial \<Rightarrow> nat" where
  "order p = length p - 1"

definition coeff :: "Polynomial \<Rightarrow> nat \<Rightarrow> real" where
  "coeff p i = p ! i"

text \<open>
  Modelled from the spec: the generalised eigenvalue solver \<^verbatim>\<open>GEP\<close> of
  \<^verbatim>\<open>generalisedeigenproblem.hpp\<close>. It is a parameter of every solver below: given the
  pencil \<open>(A, B)\<close> it fails (\<open>None\<close>) or returns the eigenvalue table \<^verbatim>\<open>lambda\<close>, one
  row (real numerator, imaginary numerator, denominator) per eigenvalue. The buffers
  \<^verbatim>\<open>work\<close>, \<^verbatim>\<open>eu\<close> and \<^verbatim>\<open>ev\<close> are never read by the solvers and are left out.
\<close>

type_synonym GEP = "Spec1DMatrix \<Rightarrow> Spec1DMatrix \<Rightarrow> Spec1DMatrix option"

section \<open>Output sequences\<close>

text \<open>
  The out-parameters of the node solvers are \<^verbatim>\<open>std::vector<real> &eig_real\<close> and
  \<^verbatim>\<open>int &nreal\<close>; the generic solver has \<^verbatim>\<open>std::vector<real> &eig_imag\<close> as well. A
  solver takes their values on entry and returns its \<^verbatim>\<open>bool\<close> with their values on
  exit.
\<close>

record nodes =
  eig_real :: "real list"
  nreal :: int

record roots = nodes +
  eig_imag :: "real list"

text \<open>\<^verbatim>\<open>v.resize(n)\<close>: truncate, or extend with value-initialised elements.\<close>

definition vec_resize :: "nat \<Rightarrow> real list \<Rightarrow> real list" where
  "vec_resize n xs = take n xs @ replicate (n - length xs) 0"

text \<open>\<^verbatim>\<open>v.push_back(x)\<close>.\<close>

definition push_back :: "real \<Rightarrow> real list \<Rightarrow> real list" where
  "push_back x xs = xs @ [x]"

text \<open>\<^verbatim>\<open>std::sort(v.begin(), v.begin() + n)\<close>.\<close>

definition sort_prefix :: "nat \<Rightarrow> real list \<Rightarrow> real list" where
  "sort_prefix n xs = sort (take n xs) @ drop n xs"

section \<open>The generic root solver\<close>

text \<open>
  Lines 57 to 68: the companion matrix. \<open>companion_fill p k A\<close> is \<open>A\<close> after the
  iterations \<open>i = 0, \<dots>, k - 1\<close> of the loop.
\<close>

definition companion_row :: "Polynomial \<Rightarrow> nat \<Rightarrow> Spec1DMatrix \<Rightarrow> Spec1DMatrix" where
  "companion_row p i A =
     (let N = order p;
          denom = coeff p N;
          A1 = mat_set A 0 i (- coeff p (N - i - 1) / denom)
      in if i < N - 1 then mat_set A1 (i + 1) i 1 else A1)"

primrec companion_fill :: "Polynomial \<Rightarrow> nat \<Rightarrow> Spec1DMatrix \<Rightarrow> Spec1DMatrix" where
  "companion_fill p 0 A = A"
| "companion_fill p (Suc k) A = companion_row p k (companion_fill p k A)"

definition companion_pencil :: "numtype \<Rightarrow> Polynomial \<Rightarrow> Spec1DMatrix \<times> Spec1DMatrix" where
  "companion_pencil ty p =
     (let N = order p
      in (companion_fill p N (setZero (resize N N (new_matrix ty))),
          setIdentity N (new_matrix ty)))"

text \<open>
  Lines 81 to 94: one eigenvalue row is classified. The state is the out-parameters
  and the local counter \<^verbatim>\<open>nimag\<close>.
\<close>

definition classify_row :: "nat \<Rightarrow> Spec1DMatrix \<Rightarrow> nat \<Rightarrow> roots \<times> int \<Rightarrow> roots \<times> int" where
  "classify_row N lam i st =
     (case st of (r, nimag) \<Rightarrow>
        if mat_at lam i 1 = 0 then
          (r\<lparr>eig_imag := (eig_imag r)[nat (nreal r) := 0],
             eig_real := (eig_real r)[nat (nreal r) := mat_at lam i 0 / mat_at lam i 2],
             nreal := nreal r + 1\<rparr>,
           nimag)
        else
          (r\<lparr>eig_imag := (eig_imag r)[nat (int N - 1 - nimag) := mat_at lam i 1 / mat_at lam i 2],
             eig_real := (eig_real r)[nat (int N - 1 - nimag) := mat_at lam i 0 / mat_at lam i 2]\<rparr>,
           nimag + 1))"

text \<open>\<open>classify_upto N lam k st\<close> is the state after the rows \<open>0, \<dots>, k - 1\<close>.\<close>

primrec classify_upto :: "nat \<Rightarrow> Spec1DMatrix \<Rightarrow> nat \<Rightarrow> roots \<times> int \<Rightarrow> roots \<times> int" where
  "classify_upto N lam 0 st = st"
| "classify_upto N lam (Suc k) st = classify_row N lam k (classify_upto N lam k st)"

text \<open>Lines 75 to 79: the counters are reset and both sequences resized.\<close>

definition classify_init :: "nat \<Rightarrow> roots \<Rightarrow> roots \<times> int" where
  "classify_init N r =
     (r\<lparr>nreal := 0, eig_real := vec_resize N (eig_real r),
        eig_imag := vec_resize N (eig_imag r)\<rparr>, 0)"

definition eigensolveroots :: "GEP \<Rightarrow> numtype \<Rightarrow> Polynomial \<Rightarrow> roots \<Rightarrow> bool \<times> roots" where
  "eigensolveroots gep ty p r =
     (let N = order p;
          (A, I) = companion_pencil ty p
      in case gep A I of
           None \<Rightarrow> (False, r)
         | Some lam \<Rightarrow>
             (let (r1, nimag) = classify_upto N lam N (classify_init N r)
              in (True, r1\<lparr>eig_real := sort_prefix (nat (nreal r1)) (eig_real r1)\<rparr>)))"

section \<open>The Lobatto and Laguerre node solvers\<close>

text \<open>
  Lines 166 to 173 and 238 to 247, the same loop twice: the rows with a zero imaginary
  numerator are packed at the front of \<^verbatim>\<open>eig_real\<close>.
\<close>

definition pack_row :: "Spec1DMatrix \<Rightarrow> nat \<Rightarrow> nodes \<Rightarrow> nodes" where
  "pack_row lam i nd =
     (if mat_at lam i 1 = 0 then
        nd\<lparr>eig_real := (eig_real nd)[nat (nreal nd) := mat_at lam i 0 / mat_at lam i 2],
           nreal := nreal nd + 1\<rparr>
      else nd)"

primrec pack_upto :: "Spec1DMatrix \<Rightarrow> nat \<Rightarrow> nodes \<Rightarrow> nodes" where
  "pack_upto lam 0 nd = nd"
| "pack_upto lam (Suc k) nd = pack_row lam k (pack_upto lam k nd)"

text \<open>Lines 162 to 175 and 234 to 249: reset, resize, pack, sort.\<close>

definition pack_real :: "nat \<Rightarrow> Spec1DMatrix \<Rightarrow> nodes \<Rightarrow> nodes" where
  "pack_real N lam nd =
     (let nd1 = pack_upto lam N (nd\<lparr>nreal := 0, eig_real := vec_resize N (eig_real nd)\<rparr>)
      in nd1\<lparr>eig_real := sort_prefix (nat (nreal nd1)) (eig_real nd1)\<rparr>)"

text \<open>
  Lines 134 to 155: the Lobatto pencil, declared \<^verbatim>\<open>Spec1DMatrix<double>\<close>. The
  \<^verbatim>\<open>size_t\<close> values \<open>order - 1\<close> and \<open>N - 1\<close> do not wrap, since the default branch
  has \<open>order \<ge> 3\<close>.
\<close>

definition lobatto_offdiag :: "nat \<Rightarrow> real" where
  "lobatto_offdiag i =
     (let ii = 1 + real i
      in 2 * sqrt (ii * (ii + 1) * (ii + 1) * (ii + 2) / ((2 * ii + 2) * (2 * ii + 2) - 1))
           / (2 * ii + 2))"

definition lobatto_row :: "nat \<Rightarrow> Spec1DMatrix \<Rightarrow> Spec1DMatrix" where
  "lobatto_row i A =
     (if i = 0 then
        mat_set (mat_set A i (i + 1) (1 / sqrt 5)) (i + 1) i (1 / sqrt 5)
      else
        (let A1 = mat_set A i (i + 1) (lobatto_offdiag i)
         in mat_set A1 (i + 1) i (mat_at A1 i (i + 1))))"

primrec lobatto_fill :: "nat \<Rightarrow> Spec1DMatrix \<Rightarrow> Spec1DMatrix" where
  "lobatto_fill 0 A = A"
| "lobatto_fill (Suc k) A = lobatto_row k (lobatto_fill k A)"

definition lobatto_pencil :: "numtype \<Rightarrow> nat \<Rightarrow> Spec1DMatrix \<times> Spec1DMatrix" where
  "lobatto_pencil ty ord =
     (let N = ord - 1
      in (lobatto_fill (N - 1) (setZero (resize N N (new_matrix Double))),
          setIdentity N (new_matrix Double)))"

definition eigensolveroots_lobatto :: "GEP \<Rightarrow> numtype \<Rightarrow> nat \<Rightarrow> nodes \<Rightarrow> bool \<times> nodes" where
  "eigensolveroots_lobatto gep ty ord nd =
     (if ord = 0 then
        (True, nd\<lparr>eig_real := push_back 0 (eig_real nd), nreal := 1\<rparr>)
      else if ord = 1 then
        (True, nd\<lparr>eig_real := push_back 1 (push_back (- 1) (eig_real nd)), nreal := 2\<rparr>)
      else if ord = 2 then
        (True, nd\<lparr>eig_real := push_back 1 (push_back 0 (push_back (- 1) (eig_real nd))),
                  nreal := 3\<rparr>)
      else
        (let N = ord - 1;
             (A, I) = lobatto_pencil ty ord
         in case gep A I of
              None \<Rightarrow> (False, nd)
            | Some lam \<Rightarrow> (True, pack_real N lam nd)))"

text \<open>Lines 207 to 227: the Laguerre pencil, declared \<^verbatim>\<open>Spec1DMatrix<real>\<close>.\<close>

definition laguerre_row :: "nat \<Rightarrow> nat \<Rightarrow> Spec1DMatrix \<Rightarrow> Spec1DMatrix" where
  "laguerre_row N i A =
     (let A1 = mat_set A i i (2 * real (i + 1))
      in if i < N - 1 then
           (let A2 = mat_set A1 i (i + 1) (sqrt ((1 + real i) * (2 + real i)))
            in mat_set A2 (i + 1) i (mat_at A2 i (i + 1)))
         else A1)"

primrec laguerre_fill :: "nat \<Rightarrow> nat \<Rightarrow> Spec1DMatrix \<Rightarrow> Spec1DMatrix" where
  "laguerre_fill N 0 A = A"
| "laguerre_fill N (Suc k) A = laguerre_row N k (laguerre_fill N k A)"

definition laguerre_pencil :: "numtype \<Rightarrow> nat \<Rightarrow> Spec1DMatrix \<times> Spec1DMatrix" where
  "laguerre_pencil ty ord =
     (let N = ord
      in (laguerre_fill N N (setZero (resize N N (new_matrix ty))),
          setIdentity N (new_matrix ty)))"

definition eigensolveroots_laguerre :: "GEP \<Rightarrow> numtype \<Rightarrow> nat \<Rightarrow> nodes \<Rightarrow> bool \<times> nodes" where
  "eigensolveroots_laguerre gep ty ord nd =
     (if ord = 0 then
        (True, nd\<lparr>nreal := 0\<rparr>)
      else if ord = 1 then
        (True, nd\<lparr>eig_real := push_back 2 (eig_real nd), nreal := 1\<rparr>)
      else
        (let N = ord;
             (A, I) = laguerre_pencil ty ord
         in case gep A I of
              None \<Rightarrow> (False, nd)
            | Some lam \<Rightarrow> (True, pack_real N lam nd)))"

section \<open>Auxiliary notions for the statements\<close>

text \<open>A matrix whose \<open>cells\<close> really are \<open>N\<close> rows of \<open>N\<close> entries.\<close>

definition square :: "nat \<Rightarrow> Spec1DMatrix \<Rightarrow> bool" where
  "square N M \<longleftrightarrow> length (cells M) = N \<and> (\<forall>i<N. length (cells M ! i) = N)"

text \<open>
  The off-diagonal recurrence as the specification words it, in the one-based index
  \<open>i'\<close>; it is compared with \<open>lobatto_offdiag\<close>, which follows line 151.
\<close>

definition spec_lobatto_offdiag :: "real \<Rightarrow> real" where
  "spec_lobatto_offdiag i' =
     2 * sqrt (i' * (i' + 1)\<^sup>2 * (i' + 2) / ((2 * i' + 2)\<^sup>2 - 1)) / (2 * i' + 2)"

text \<open>The value the Lobatto loop stores at \<open>(i, i + 1)\<close> and \<open>(i + 1, i)\<close>.\<close>

definition lobatto_entry :: "nat \<Rightarrow> real" where
  "lobatto_entry i = (if i = 0 then 1 / sqrt 5 else lobatto_offdiag i)"

text \<open>
  The rows among the first \<open>k\<close> of an eigenvalue table whose imaginary numerator is
  zero, and those whose imaginary numerator is not, in increasing order; and the two
  quotients of a row.
\<close>

definition real_rows :: "Spec1DMatrix \<Rightarrow> nat \<Rightarrow> nat list" where
  "real_rows lam k = filter (\<lambda>i. mat_at lam i 1 = 0) [0..<k]"

definition complex_rows :: "Spec1DMatrix \<Rightarrow> nat \<Rightarrow> nat list" where
  "complex_rows lam k = filter (\<lambda>i. mat_at lam i 1 \<noteq> 0) [0..<k]"

definition quot_re :: "Spec1DMatrix \<Rightarrow> nat \<Rightarrow> real" where
  "quot_re lam i = mat_at lam i 0 / mat_at lam i 2"

definition quot_im :: "Spec1DMatrix \<Rightarrow> nat \<Rightarrow> real" where
  "quot_im lam i = mat_at lam i 1 / mat_at lam i 2"

text \<open>
  A sequence filled from both ends: the real rows from the front with the values \<open>vr\<close>,
  the other rows from the back with the values \<open>vc\<close>. Both output sequences of the
  generic solver are instances (\<open>classify_as_fill\<close>).
\<close>

primrec fill_upto ::
  "nat \<Rightarrow> Spec1DMatrix \<Rightarrow> (nat \<Rightarrow> real) \<Rightarrow> (nat \<Rightarrow> real) \<Rightarrow> nat \<Rightarrow> real list \<Rightarrow> real list"
where
  "fill_upto N lam vr vc 0 xs = xs"
| "fill_upto N lam vr vc (Suc k) xs =
     (if mat_at lam k 1 = 0
      then (fill_upto N lam vr vc k xs)[length (real_rows lam k) := vr k]
      else (fill_upto N lam vr vc k xs)[N - 1 - length (complex_rows lam k) := vc k])"

text \<open>Solvers for the examples: one that always fails, one that returns a given table.\<close>

definition gep_fail :: GEP where
  "gep_fail A B = None"

definition gep_const :: "Spec1DMatrix \<Rightarrow> GEP" where
  "gep_const lam A B = Some lam"

text \<open>
  The position row \<open>i\<close> is written to: the index expression of lines 83 and 84, or of
  lines 89 and 90, in the state the loop has reached before row \<open>i\<close>.
\<close>

definition write_index :: "nat \<Rightarrow> Spec1DMatrix \<Rightarrow> roots \<Rightarrow> nat \<Rightarrow> nat" where
  "write_index N lam r i =
     (case classify_upto N lam i (classify_init N r) of (r1, nimag) \<Rightarrow>
        if mat_at lam i 1 = 0 then nat (nreal r1) else nat (int N - 1 - nimag))"

text \<open>
  Inputs for the examples: empty and used output sequences; \<open>x\<^sup>2 - 1\<close> with the
  eigenvalues 1 and -1; \<open>x\<^sup>3 - x\<^sup>2 + x - 1 = (x - 1)(x\<^sup>2 + 1)\<close> with the eigenvalues
  \<open>\<plusminus>i\<close> and 1; a table with one real and one complex row.
\<close>

definition nodes_empty :: nodes where
  "nodes_empty = \<lparr>eig_real = [], nreal = 0\<rparr>"

definition nodes_used :: nodes where
  "nodes_used = \<lparr>eig_real = [7, 8, 9], nreal = 5\<rparr>"

definition roots_empty :: roots where
  "roots_empty = \<lparr>eig_real = [], nreal = 0, eig_imag = []\<rparr>"

definition quadratic :: Polynomial where
  "quadratic = [- 1, 0, 1]"

definition quadratic_lambda :: Spec1DMatrix where
  "quadratic_lambda = \<lparr>elem = Double, nrows = 2, ncols = 3, cells = [[1, 0, 1], [- 1, 0, 1]]\<rparr>"

definition cubic :: Polynomial where
  "cubic = [- 1, 1, - 1, 1]"

definition cubic_lambda :: Spec1DMatrix where
  "cubic_lambda = \<lparr>elem = Double, nrows = 3, ncols = 3,
     cells = [[0, 1, 1], [0, - 1, 1], [1, 0, 1]]\<rparr>"

definition mixed_lambda :: Spec1DMatrix where
  "mixed_lambda = \<lparr>elem = Double, nrows = 2, ncols = 3, cells = [[1, 0, 1], [3, 2, 1]]\<rparr>"

section \<open>Matrices\<close>

lemma square_zero: "square N (setZero (resize N N (new_matrix ty)))"
  by (simp add: square_def setZero_def resize_def new_matrix_def)

lemma mat_at_zero: "i < N \<Longrightarrow> j < N \<Longrightarrow> mat_at (setZero (resize N N (new_matrix ty))) i j = 0"
  by (simp add: mat_at_def setZero_def resize_def new_matrix_def)

lemma square_mat_set: "square N M \<Longrightarrow> square N (mat_set M i j v)"
  by (cases "i < N") (auto simp: square_def mat_set_def nth_list_update)

lemma mat_at_mat_set:
  "square N M \<Longrightarrow> i < N \<Longrightarrow> j < N \<Longrightarrow>
   mat_at (mat_set M i j v) i' j' = (if i' = i \<and> j' = j then v else mat_at M i' j')"
  by (auto simp: square_def mat_set_def mat_at_def nth_list_update)

lemma mat_set_fields:
  "elem (mat_set M i j v) = elem M" "nrows (mat_set M i j v) = nrows M"
  "ncols (mat_set M i j v) = ncols M"
  by (simp_all add: mat_set_def)

lemma mat_at_identity:
  "i < N \<Longrightarrow> j < N \<Longrightarrow> mat_at (setIdentity N M) i j = (if i = j then 1 else 0)"
  by (simp add: mat_at_def setIdentity_def)

section \<open>The companion pencil\<close>

lemma companion_row_square: "square (order p) A \<Longrightarrow> square (order p) (companion_row p i A)"
  by (simp add: companion_row_def Let_def square_mat_set)

lemma companion_fill_square:
  "square (order p) A \<Longrightarrow> square (order p) (companion_fill p k A)"
  by (induction k) (simp_all add: companion_row_square)

lemma companion_row_at:
  assumes "square (order p) A" "k < order p" "i < order p" "j < order p"
  shows "mat_at (companion_row p k A) i j =
     (if j = k \<and> i = 0 then - coeff p (order p - k - 1) / coeff p (order p)
      else if j = k \<and> i = k + 1 then 1 else mat_at A i j)"
  using assms
  by (auto simp: companion_row_def Let_def mat_at_mat_set [where N = "order p"] square_mat_set)

lemma companion_fill_at:
  assumes "square (order p) A" "k \<le> order p" "i < order p" "j < order p"
  shows "mat_at (companion_fill p k A) i j =
     (if j < k \<and> i = 0 then - coeff p (order p - j - 1) / coeff p (order p)
      else if j < k \<and> i = j + 1 then 1 else mat_at A i j)"
  using assms
proof (induction k)
  case 0
  then show ?case by simp
next
  case (Suc k)
  then have "k < order p" by simp
  with Suc show ?case
    by (auto simp: companion_row_at companion_fill_square)
qed

lemma companion_fill_fields:
  "elem (companion_fill p k A) = elem A" "nrows (companion_fill p k A) = nrows A"
  "ncols (companion_fill p k A) = ncols A"
  by (induction k) (simp_all add: companion_row_def Let_def mat_set_fields)

lemma companion_pencil_fields:
  "nrows (fst (companion_pencil ty p)) = order p" "ncols (fst (companion_pencil ty p)) = order p"
  "elem (fst (companion_pencil ty p)) = ty"
  "nrows (snd (companion_pencil ty p)) = order p" "ncols (snd (companion_pencil ty p)) = order p"
  "elem (snd (companion_pencil ty p)) = ty"
  by (simp_all add: companion_pencil_def Let_def companion_fill_fields setZero_def resize_def
      new_matrix_def setIdentity_def)

lemma eigensolveroots_success:
  "fst (eigensolveroots gep ty p r)
     = (gep (fst (companion_pencil ty p)) (snd (companion_pencil ty p)) \<noteq> None)"
  by (simp add: eigensolveroots_def Let_def split_def split: option.splits)

lemma eigensolveroots_Some:
  assumes "gep (fst (companion_pencil ty p)) (snd (companion_pencil ty p)) = Some lam"
  shows "eigensolveroots gep ty p r =
     (True, (fst (classify_upto (order p) lam (order p) (classify_init (order p) r)))
        \<lparr>eig_real := sort_prefix
            (nat (nreal (fst (classify_upto (order p) lam (order p) (classify_init (order p) r)))))
            (eig_real (fst (classify_upto (order p) lam (order p) (classify_init (order p) r))))\<rparr>)"
  using assms by (simp add: eigensolveroots_def Let_def split_def)

lemma eigensolveroots_None:
  assumes "gep (fst (companion_pencil ty p)) (snd (companion_pencil ty p)) = None"
  shows "eigensolveroots gep ty p r = (False, r)"
  using assms by (simp add: eigensolveroots_def Let_def split_def)

text \<open>
  Claim C5. For a polynomial of order \<open>N\<close> with a nonzero leading coefficient the generic
  solver builds the \<open>N \<times> N\<close> companion matrix: row 0 holds
  \<open>- coeff[N - j - 1] / coeff[N]\<close> in column \<open>j\<close>, the sub-diagonal entries
  \<open>(j + 1, j)\<close> are 1 and every other entry is 0. The second matrix is the
  \<open>N \<times> N\<close> identity, and the call succeeds exactly when the eigenvalue solver succeeds
  on this pencil.
\<close>

theorem companion_matrix_entries:
  assumes "coeff p (order p) \<noteq> 0"
  shows "nrows (fst (companion_pencil ty p)) = order p
       \<and> ncols (fst (companion_pencil ty p)) = order p
       \<and> (\<forall>i<order p. \<forall>j<order p.
             mat_at (fst (companion_pencil ty p)) i j =
               (if i = 0 then - coeff p (order p - j - 1) / coeff p (order p)
                else if i = j + 1 then 1 else 0))
       \<and> nrows (snd (companion_pencil ty p)) = order p
       \<and> ncols (snd (companion_pencil ty p)) = order p
       \<and> (\<forall>i<order p. \<forall>j<order p.
             mat_at (snd (companion_pencil ty p)) i j = (if i = j then 1 else 0))
       \<and> fst (eigensolveroots gep ty p r)
           = (gep (fst (companion_pencil ty p)) (snd (companion_pencil ty p)) \<noteq> None)"
proof -
  have A: "\<forall>i<order p. \<forall>j<order p.
             mat_at (fst (companion_pencil ty p)) i j =
               (if i = 0 then - coeff p (order p - j - 1) / coeff p (order p)
                else if i = j + 1 then 1 else 0)"
    by (simp add: companion_pencil_def Let_def companion_fill_at square_zero mat_at_zero)
  have I: "\<forall>i<order p. \<forall>j<order p.
             mat_at (snd (companion_pencil ty p)) i j = (if i = j then 1 else 0)"
    by (simp add: companion_pencil_def Let_def mat_at_identity)
  show ?thesis
    using A I by (simp add: companion_pencil_fields eigensolveroots_success)
qed

theorem companion_matrix_entries_witness:
  "coeff [- 1, 0, 1] (order [- 1, 0, 1]) \<noteq> 0
   \<and> order [- 1, 0, 1] = 2
   \<and> mat_at (fst (companion_pencil Double [- 1, 0, 1])) 0 0 = 0
   \<and> mat_at (fst (companion_pencil Double [- 1, 0, 1])) 0 1 = 1
   \<and> mat_at (fst (companion_pencil Double [- 1, 0, 1])) 1 0 = 1
   \<and> mat_at (fst (companion_pencil Double [- 1, 0, 1])) 1 1 = 0
   \<and> mat_at (snd (companion_pencil Double [- 1, 0, 1])) 0 0 = 1
   \<and> mat_at (snd (companion_pencil Double [- 1, 0, 1])) 0 1 = 0
   \<and> \<not> fst (eigensolveroots gep_fail Double [- 1, 0, 1] \<lparr>eig_real = [], nreal = 0, eig_imag = []\<rparr>)"
proof -
  have h: "coeff [- 1, 0, 1] (order [- 1, 0, 1]) \<noteq> 0"
    by (simp add: coeff_def order_def)
  have o: "order [- 1, 0, 1] = 2"
    by (simp add: order_def)
  show ?thesis
    using companion_matrix_entries [OF h, of Double gep_fail
        "\<lparr>eig_real = [], nreal = 0, eig_imag = []\<rparr>"]
    by (simp add: o coeff_def gep_fail_def)
qed

section \<open>The Lobatto pencil\<close>

lemma lobatto_row_square: "square N A \<Longrightarrow> square N (lobatto_row i A)"
  by (simp add: lobatto_row_def Let_def square_mat_set)

lemma lobatto_fill_square: "square N A \<Longrightarrow> square N (lobatto_fill k A)"
  by (induction k) (simp_all add: lobatto_row_square)

lemma lobatto_row_at:
  assumes "square N A" "Suc k < N" "i < N" "j < N"
  shows "mat_at (lobatto_row k A) i j =
     (if (i = k \<and> j = k + 1) \<or> (i = k + 1 \<and> j = k) then lobatto_entry k else mat_at A i j)"
  using assms
  by (auto simp: lobatto_row_def lobatto_entry_def Let_def mat_at_mat_set [where N = N]
      square_mat_set)

lemma lobatto_fill_at:
  assumes "square N A" "Suc k \<le> N" "i < N" "j < N"
  shows "mat_at (lobatto_fill k A) i j =
     (if j = i + 1 \<and> i < k then lobatto_entry i
      else if i = j + 1 \<and> j < k then lobatto_entry j else mat_at A i j)"
  using assms
proof (induction k)
  case 0
  then show ?case by simp
next
  case (Suc k)
  then have "Suc k < N" by simp
  with Suc show ?case
    by (auto simp: lobatto_row_at [where N = N] lobatto_fill_square)
qed

lemma lobatto_fill_fields:
  "elem (lobatto_fill k A) = elem A" "nrows (lobatto_fill k A) = nrows A"
  "ncols (lobatto_fill k A) = ncols A"
  by (induction k) (simp_all add: lobatto_row_def Let_def mat_set_fields)

lemma lobatto_pencil_fields:
  "nrows (fst (lobatto_pencil ty ord)) = ord - 1" "ncols (fst (lobatto_pencil ty ord)) = ord - 1"
  "elem (fst (lobatto_pencil ty ord)) = Double"
  "nrows (snd (lobatto_pencil ty ord)) = ord - 1" "ncols (snd (lobatto_pencil ty ord)) = ord - 1"
  "elem (snd (lobatto_pencil ty ord)) = Double"
  by (simp_all add: lobatto_pencil_def Let_def lobatto_fill_fields setZero_def resize_def
      new_matrix_def setIdentity_def)

lemma lobatto_success:
  "3 \<le> ord \<Longrightarrow> fst (eigensolveroots_lobatto gep ty ord nd)
     = (gep (fst (lobatto_pencil ty ord)) (snd (lobatto_pencil ty ord)) \<noteq> None)"
  by (simp add: eigensolveroots_lobatto_def Let_def split_def split: option.splits)

lemma lobatto_offdiag_claim: "lobatto_offdiag i = spec_lobatto_offdiag (real i + 1)"
  by (simp add: lobatto_offdiag_def spec_lobatto_offdiag_def Let_def power2_eq_square
      algebra_simps)

text \<open>
  Claim C9. For every order of at least 3 the Lobatto solver builds, with
  \<open>N = order - 1\<close>, an \<open>N \<times> N\<close> matrix whose entries \<open>(0, 1)\<close> and \<open>(1, 0)\<close> are
  \<open>1 / sqrt 5\<close>, whose entries \<open>(i, i + 1)\<close> and \<open>(i + 1, i)\<close> for \<open>1 \<le> i < N - 1\<close> are
  the recurrence of the specification at \<open>i' = i + 1\<close>, and whose other entries, the
  diagonal among them, are 0. The second matrix is the \<open>N \<times> N\<close> identity, and the call
  succeeds exactly when the eigenvalue solver succeeds on this pencil.
\<close>

theorem lobatto_matrix_entries:
  assumes "3 \<le> ord"
  shows "nrows (fst (lobatto_pencil ty ord)) = ord - 1
       \<and> ncols (fst (lobatto_pencil ty ord)) = ord - 1
       \<and> (\<forall>i<ord - 1. \<forall>j<ord - 1.
             mat_at (fst (lobatto_pencil ty ord)) i j =
               (if (i = 0 \<and> j = 1) \<or> (i = 1 \<and> j = 0) then 1 / sqrt 5
                else if j = i + 1 \<or> i = j + 1 then
                  spec_lobatto_offdiag (real (min i j) + 1)
                else 0))
       \<and> nrows (snd (lobatto_pencil ty ord)) = ord - 1
       \<and> ncols (snd (lobatto_pencil ty ord)) = ord - 1
       \<and> (\<forall>i<ord - 1. \<forall>j<ord - 1.
             mat_at (snd (lobatto_pencil ty ord)) i j = (if i = j then 1 else 0))
       \<and> fst (eigensolveroots_lobatto gep ty ord nd)
           = (gep (fst (lobatto_pencil ty ord)) (snd (lobatto_pencil ty ord)) \<noteq> None)"
proof -
  have sq: "square (ord - 1) (setZero (resize (ord - 1) (ord - 1) (new_matrix Double)))"
    by (rule square_zero)
  have le: "Suc (ord - 1 - 1) \<le> ord - 1"
    using assms by simp
  have A: "mat_at (fst (lobatto_pencil ty ord)) i j =
               (if (i = 0 \<and> j = 1) \<or> (i = 1 \<and> j = 0) then 1 / sqrt 5
                else if j = i + 1 \<or> i = j + 1 then
                  spec_lobatto_offdiag (real (min i j) + 1)
                else 0)" if "i < ord - 1" "j < ord - 1" for i j
  proof -
    have "mat_at (fst (lobatto_pencil ty ord)) i j =
       (if j = i + 1 \<and> i < ord - 1 - 1 then lobatto_entry i
        else if i = j + 1 \<and> j < ord - 1 - 1 then lobatto_entry j else 0)"
      unfolding lobatto_pencil_def Let_def fst_conv
      by (subst lobatto_fill_at [OF sq le that]) (use that in \<open>simp add: mat_at_zero\<close>)
    also have "\<dots> = (if j = i + 1 then lobatto_entry (min i j)
        else if i = j + 1 then lobatto_entry (min i j) else 0)"
      using that by (auto simp: min_def)
    finally show ?thesis
      by (auto simp: lobatto_entry_def lobatto_offdiag_claim min_def)
  qed
  have I: "\<forall>i<ord - 1. \<forall>j<ord - 1.
             mat_at (snd (lobatto_pencil ty ord)) i j = (if i = j then 1 else 0)"
    by (simp add: lobatto_pencil_def Let_def mat_at_identity)
  show ?thesis
    using A I assms by (simp add: lobatto_pencil_fields lobatto_success)
qed

theorem lobatto_matrix_entries_witness:
  "3 \<le> (4::nat)
   \<and> nrows (fst (lobatto_pencil Float 4)) = 3
   \<and> ncols (fst (lobatto_pencil Float 4)) = 3
   \<and> mat_at (fst (lobatto_pencil Float 4)) 0 0 = 0
   \<and> mat_at (fst (lobatto_pencil Float 4)) 0 1 = 1 / sqrt 5
   \<and> mat_at (fst (lobatto_pencil Float 4)) 0 2 = 0
   \<and> mat_at (fst (lobatto_pencil Float 4)) 1 0 = 1 / sqrt 5
   \<and> mat_at (fst (lobatto_pencil Float 4)) 1 1 = 0
   \<and> mat_at (fst (lobatto_pencil Float 4)) 1 2 = spec_lobatto_offdiag 2
   \<and> mat_at (fst (lobatto_pencil Float 4)) 2 0 = 0
   \<and> mat_at (fst (lobatto_pencil Float 4)) 2 1 = spec_lobatto_offdiag 2
   \<and> mat_at (fst (lobatto_pencil Float 4)) 2 2 = 0
   \<and> mat_at (snd (lobatto_pencil Float 4)) 1 1 = 1
   \<and> mat_at (snd (lobatto_pencil Float 4)) 1 2 = 0
   \<and> \<not> fst (eigensolveroots_lobatto gep_fail Float 4 nodes_empty)"
proof -
  have h: "3 \<le> (4::nat)" by simp
  show ?thesis
    using lobatto_matrix_entries [OF h, of Float gep_fail nodes_empty]
    by (simp add: gep_fail_def)
qed

section \<open>Rows of the eigenvalue table\<close>

lemma real_rows_Suc:
  "real_rows lam (Suc k) = (if mat_at lam k 1 = 0 then real_rows lam k @ [k] else real_rows lam k)"
  by (simp add: real_rows_def)

lemma complex_rows_Suc:
  "complex_rows lam (Suc k) =
     (if mat_at lam k 1 = 0 then complex_rows lam k else complex_rows lam k @ [k])"
  by (simp add: complex_rows_def)

lemma rows_count: "length (real_rows lam k) + length (complex_rows lam k) = k"
  by (induction k) (simp_all add: real_rows_Suc complex_rows_Suc real_rows_def complex_rows_def)

lemma real_rows_mono: "k \<le> n \<Longrightarrow> length (real_rows lam k) \<le> length (real_rows lam n)"
  by (induction n) (auto simp: real_rows_Suc le_Suc_eq)

lemma complex_rows_mono:
  "k \<le> n \<Longrightarrow> length (complex_rows lam k) \<le> length (complex_rows lam n)"
  by (induction n) (auto simp: complex_rows_Suc le_Suc_eq)

lemma real_rows_prefix:
  "k \<le> n \<Longrightarrow> m < length (real_rows lam k) \<Longrightarrow> real_rows lam n ! m = real_rows lam k ! m"
proof (induction n)
  case 0
  then show ?case by simp
next
  case (Suc n)
  show ?case
  proof (cases "k = Suc n")
    case True
    then show ?thesis by simp
  next
    case False
    with Suc.prems have kn: "k \<le> n" by simp
    with Suc real_rows_mono [OF kn, of lam] show ?thesis
      by (simp add: real_rows_Suc nth_append)
  qed
qed

lemma complex_rows_prefix:
  "k \<le> n \<Longrightarrow> m < length (complex_rows lam k) \<Longrightarrow>
   complex_rows lam n ! m = complex_rows lam k ! m"
proof (induction n)
  case 0
  then show ?case by simp
next
  case (Suc n)
  show ?case
  proof (cases "k = Suc n")
    case True
    then show ?thesis by simp
  next
    case False
    with Suc.prems have kn: "k \<le> n" by simp
    with Suc complex_rows_mono [OF kn, of lam] show ?thesis
      by (simp add: complex_rows_Suc nth_append)
  qed
qed

lemma real_rows_nth_self:
  assumes "i < N" "mat_at lam i 1 = 0"
  shows "length (real_rows lam i) < length (real_rows lam N)"
    and "real_rows lam N ! length (real_rows lam i) = i"
proof -
  have S: "real_rows lam (Suc i) = real_rows lam i @ [i]"
    using assms by (simp add: real_rows_Suc)
  have le: "Suc i \<le> N" using assms by simp
  show "length (real_rows lam i) < length (real_rows lam N)"
    using real_rows_mono [OF le, of lam] by (simp add: S)
  show "real_rows lam N ! length (real_rows lam i) = i"
    using real_rows_prefix [OF le, of "length (real_rows lam i)" lam] by (simp add: S)
qed

lemma complex_rows_nth_self:
  assumes "i < N" "mat_at lam i 1 \<noteq> 0"
  shows "length (complex_rows lam i) < length (complex_rows lam N)"
    and "complex_rows lam N ! length (complex_rows lam i) = i"
proof -
  have S: "complex_rows lam (Suc i) = complex_rows lam i @ [i]"
    using assms by (simp add: complex_rows_Suc)
  have le: "Suc i \<le> N" using assms by simp
  show "length (complex_rows lam i) < length (complex_rows lam N)"
    using complex_rows_mono [OF le, of lam] by (simp add: S)
  show "complex_rows lam N ! length (complex_rows lam i) = i"
    using complex_rows_prefix [OF le, of "length (complex_rows lam i)" lam] by (simp add: S)
qed

lemma real_rows_strict:
  "i < j \<Longrightarrow> mat_at lam i 1 = 0 \<Longrightarrow> length (real_rows lam i) < length (real_rows lam j)"
  using real_rows_nth_self(1) [of i j lam] by simp

lemma complex_rows_strict:
  "i < j \<Longrightarrow> mat_at lam i 1 \<noteq> 0 \<Longrightarrow>
   length (complex_rows lam i) < length (complex_rows lam j)"
  using complex_rows_nth_self(1) [of i j lam] by simp

lemma real_rows_all_iff:
  "length (real_rows lam N) < N \<longleftrightarrow> (\<exists>i<N. mat_at lam i 1 \<noteq> 0)"
proof -
  have "length (real_rows lam N) < N \<longleftrightarrow> complex_rows lam N \<noteq> []"
    using rows_count [of lam N] by (cases "complex_rows lam N") auto
  also have "\<dots> \<longleftrightarrow> (\<exists>i<N. mat_at lam i 1 \<noteq> 0)"
    by (auto simp: complex_rows_def filter_empty_conv)
  finally show ?thesis .
qed

section \<open>Filling from both ends\<close>

lemma length_vec_resize: "length (vec_resize n xs) = n"
  by (simp add: vec_resize_def)

lemma length_fill_upto: "length (fill_upto N lam vr vc k xs) = length xs"
  by (induction k) simp_all

lemma fill_upto_nth:
  assumes "k \<le> N" "m < N" "length xs = N"
  shows "fill_upto N lam vr vc k xs ! m =
     (if m < length (real_rows lam k) then vr (real_rows lam k ! m)
      else if N - length (complex_rows lam k) \<le> m
        then vc (complex_rows lam k ! (N - 1 - m))
      else xs ! m)"
  using assms
proof (induction k)
  case 0
  then show ?case
    by (simp add: real_rows_def complex_rows_def)
next
  case (Suc k)
  define R where "R = length (real_rows lam k)"
  define C where "C = length (complex_rows lam k)"
  define ys where "ys = fill_upto N lam vr vc k xs"
  have kN: "k < N" and RC: "R + C = k" and ly: "length ys = N"
    using Suc.prems rows_count [of lam k] by (simp_all add: R_def C_def ys_def length_fill_upto)
  have IH: "ys ! m =
     (if m < R then vr (real_rows lam k ! m)
      else if N - C \<le> m then vc (complex_rows lam k ! (N - 1 - m))
      else xs ! m)"
    using Suc by (simp add: R_def C_def ys_def)
  show ?case
  proof (cases "mat_at lam k 1 = 0")
    case True
    have step: "fill_upto N lam vr vc (Suc k) xs = ys[R := vr k]"
      using True by (simp add: ys_def R_def)
    have rows: "real_rows lam (Suc k) = real_rows lam k @ [k]"
      "complex_rows lam (Suc k) = complex_rows lam k"
      using True by (simp_all add: real_rows_Suc complex_rows_Suc)
    show ?thesis
    proof (cases "m = R")
      case True
      then show ?thesis
        using ly \<open>m < N\<close> by (subst step) (simp add: rows R_def [symmetric] nth_append)
    next
      case False
      then show ?thesis
        using IH RC kN \<open>m < N\<close>
        by (subst step) (auto simp: rows R_def [symmetric] C_def [symmetric] nth_append)
    qed
  next
    case False
    have step: "fill_upto N lam vr vc (Suc k) xs = ys[N - 1 - C := vc k]"
      using False by (simp add: ys_def C_def)
    have rows: "real_rows lam (Suc k) = real_rows lam k"
      "complex_rows lam (Suc k) = complex_rows lam k @ [k]"
      using False by (simp_all add: real_rows_Suc complex_rows_Suc)
    show ?thesis
    proof (cases "m = N - 1 - C")
      case True
      have "\<not> m < R" "N - Suc C \<le> m" "N - 1 - m = C"
        using True RC kN by simp_all
      then show ?thesis
        using ly \<open>m < N\<close> True
        by (subst step) (simp add: rows R_def [symmetric] C_def [symmetric] nth_append)
    next
      case neq: False
      have eq1: "(N - Suc C \<le> m) = (N - C \<le> m)"
        using neq RC kN by auto
      have eq2: "N - C \<le> m \<Longrightarrow> N - 1 - m < C"
        using \<open>m < N\<close> by auto
      show ?thesis
        using IH neq eq2
        by (subst step) (simp add: rows R_def [symmetric] C_def [symmetric] nth_append eq1)
    qed
  qed
qed

lemma fill_upto_real_slot:
  assumes "i < N" "mat_at lam i 1 = 0" "length xs = N"
  shows "fill_upto N lam vr vc N xs ! length (real_rows lam i) = vr i"
proof -
  have "length (real_rows lam i) < N"
    using real_rows_nth_self(1) [OF assms(1,2)] rows_count [of lam N] by simp
  then show ?thesis
    using real_rows_nth_self [OF assms(1,2)] assms(3)
    by (simp add: fill_upto_nth)
qed

lemma fill_upto_complex_slot:
  assumes "i < N" "mat_at lam i 1 \<noteq> 0" "length xs = N"
  shows "fill_upto N lam vr vc N xs ! (N - 1 - length (complex_rows lam i)) = vc i"
proof -
  define C where "C = length (complex_rows lam i)"
  have lt: "C < length (complex_rows lam N)" and nth: "complex_rows lam N ! C = i"
    using complex_rows_nth_self [OF assms(1,2)] by (simp_all add: C_def)
  have RC: "length (real_rows lam N) + length (complex_rows lam N) = N"
    by (rule rows_count)
  have a: "\<not> N - 1 - C < length (real_rows lam N)"
    using lt RC by linarith
  have b: "N - length (complex_rows lam N) \<le> N - 1 - C"
    using lt RC by linarith
  have c: "N - 1 - (N - 1 - C) = C"
    using lt RC by linarith
  have d: "N - 1 - C < N"
    using assms(1) by linarith
  have "fill_upto N lam vr vc N xs ! (N - 1 - C) =
     (if N - 1 - C < length (real_rows lam N) then vr (real_rows lam N ! (N - 1 - C))
      else if N - length (complex_rows lam N) \<le> N - 1 - C
        then vc (complex_rows lam N ! (N - 1 - (N - 1 - C)))
      else xs ! (N - 1 - C))"
    by (rule fill_upto_nth [OF le_refl d assms(3)])
  also have "\<dots> = vc (complex_rows lam N ! (N - 1 - (N - 1 - C)))"
    using a b by (simp only: if_False if_True)
  also have "\<dots> = vc i"
    by (simp only: c nth)
  finally show ?thesis
    by (simp only: C_def)
qed

lemma sort_prefix_length: "length (sort_prefix n xs) = length xs"
  by (simp add: sort_prefix_def)

lemma sort_prefix_nth_ge: "n \<le> m \<Longrightarrow> n \<le> length xs \<Longrightarrow> sort_prefix n xs ! m = xs ! m"
  by (simp add: sort_prefix_def nth_append)

lemma sort_prefix_take_sorted: "sorted (take n (sort_prefix n xs))"
  by (cases "n \<le> length xs") (simp_all add: sort_prefix_def)

section \<open>The classification loop of the generic solver\<close>

lemma classify_counts:
  "nreal (fst (classify_upto N lam k (classify_init N r0))) = int (length (real_rows lam k))
   \<and> snd (classify_upto N lam k (classify_init N r0)) = int (length (complex_rows lam k))"
  by (induction k)
    (simp_all add: classify_init_def classify_row_def split_def real_rows_Suc complex_rows_Suc
      real_rows_def complex_rows_def)

lemma classify_lengths:
  "length (eig_real (fst (classify_upto N lam k (classify_init N r0)))) = N
   \<and> length (eig_imag (fst (classify_upto N lam k (classify_init N r0)))) = N"
  by (induction k)
    (simp_all add: classify_init_def classify_row_def split_def length_vec_resize)

lemma classify_as_fill:
  assumes "k \<le> N"
  shows "eig_real (fst (classify_upto N lam k (classify_init N r0)))
           = fill_upto N lam (quot_re lam) (quot_re lam) k (vec_resize N (eig_real r0))
       \<and> eig_imag (fst (classify_upto N lam k (classify_init N r0)))
           = fill_upto N lam (\<lambda>i. 0) (quot_im lam) k (vec_resize N (eig_imag r0))"
  using assms
proof (induction k)
  case 0
  then show ?case by (simp add: classify_init_def)
next
  case (Suc k)
  then have kN: "k < N" by simp
  note cnt = classify_counts [of N lam k r0]
  have "length (complex_rows lam k) \<le> k"
    using rows_count [of lam k] by simp
  then have pos: "nat (int N - 1 - int (length (complex_rows lam k)))
                 = N - 1 - length (complex_rows lam k)"
    using kN by linarith
  show ?case
    using Suc kN cnt
    by (simp add: classify_row_def split_def quot_re_def quot_im_def pos)
qed

text \<open>
  Claim C4. After a successful solve, let \<open>st\<close> be the state of the classification loop
  before row \<open>i < N\<close> and \<open>fin\<close> its state after the last row. If the imaginary numerator
  of row \<open>i\<close> is zero, the loop increments \<open>nreal\<close> and leaves \<open>nimag\<close>, and position
  \<open>nreal\<close> (of \<open>st\<close>) holds the quotient of the real numerator and the denominator in
  \<open>eig_real\<close> and 0 in \<open>eig_imag\<close>. Otherwise the loop increments \<open>nimag\<close> and leaves
  \<open>nreal\<close>, and position \<open>N - 1 - nimag\<close> (of \<open>st\<close>) holds the two quotients in
  \<open>eig_real\<close> and \<open>eig_imag\<close>. Both positions are inside the sequences, no later row
  overwrites them, and the sort of the real prefix leaves the pair of a complex row as
  it is in the sequences the call returns.
\<close>

theorem classify_row_positions:
  fixes gep :: GEP and ty :: numtype and p :: Polynomial and r :: roots
    and lam :: Spec1DMatrix and i :: nat
    and N :: nat and st st' fin :: "roots \<times> int" and out :: roots
  defines "N \<equiv> order p"
    and "st \<equiv> classify_upto (order p) lam i (classify_init (order p) r)"
    and "st' \<equiv> classify_upto (order p) lam (Suc i) (classify_init (order p) r)"
    and "fin \<equiv> classify_upto (order p) lam (order p) (classify_init (order p) r)"
    and "out \<equiv> snd (eigensolveroots gep ty p r)"
  assumes ok: "gep (fst (companion_pencil ty p)) (snd (companion_pencil ty p)) = Some lam"
    and i: "i < order p"
  shows "(mat_at lam i 1 = 0 \<longrightarrow>
            nreal (fst st') = nreal (fst st) + 1 \<and> snd st' = snd st
          \<and> 0 \<le> nreal (fst st) \<and> nat (nreal (fst st)) < N
          \<and> eig_real (fst fin) ! nat (nreal (fst st)) = mat_at lam i 0 / mat_at lam i 2
          \<and> eig_imag (fst fin) ! nat (nreal (fst st)) = 0
          \<and> eig_imag out ! nat (nreal (fst st)) = 0)
       \<and> (mat_at lam i 1 \<noteq> 0 \<longrightarrow>
            nreal (fst st') = nreal (fst st) \<and> snd st' = snd st + 1
          \<and> 0 \<le> int N - 1 - snd st \<and> nat (int N - 1 - snd st) < N
          \<and> eig_real (fst fin) ! nat (int N - 1 - snd st) = mat_at lam i 0 / mat_at lam i 2
          \<and> eig_imag (fst fin) ! nat (int N - 1 - snd st) = mat_at lam i 1 / mat_at lam i 2
          \<and> eig_real out ! nat (int N - 1 - snd st) = mat_at lam i 0 / mat_at lam i 2
          \<and> eig_imag out ! nat (int N - 1 - snd st) = mat_at lam i 1 / mat_at lam i 2)"
proof -
  define R where "R = length (real_rows lam i)"
  define C where "C = length (complex_rows lam i)"
  have RC: "R + C = i"
    by (simp add: R_def C_def rows_count)
  have nr: "nreal (fst st) = int R" and ni: "snd st = int C"
    using classify_counts [of "order p" lam i r] by (simp_all add: st_def R_def C_def)
  have nr': "nreal (fst st') = int (length (real_rows lam (Suc i)))"
    and ni': "snd st' = int (length (complex_rows lam (Suc i)))"
    using classify_counts [of "order p" lam "Suc i" r] by (simp_all add: st'_def)
  have nrN: "nreal (fst fin) = int (length (real_rows lam N))"
    using classify_counts [of "order p" lam "order p" r] by (simp add: fin_def N_def)
  have fr: "eig_real (fst fin)
      = fill_upto N lam (quot_re lam) (quot_re lam) N (vec_resize N (eig_real r))"
    and fi: "eig_imag (fst fin)
      = fill_upto N lam (\<lambda>i. 0) (quot_im lam) N (vec_resize N (eig_imag r))"
    using classify_as_fill [of "order p" "order p" lam r] by (simp_all add: fin_def N_def)
  have out_imag: "eig_imag out = eig_imag (fst fin)"
    and out_real: "eig_real out = sort_prefix (nat (nreal (fst fin))) (eig_real (fst fin))"
    by (simp_all add: out_def fin_def eigensolveroots_Some [where gep = gep, OF ok])
  have iN: "i < N" using i by (simp add: N_def)
  have pos: "nat (int N - 1 - int C) = N - 1 - C"
    using iN RC by linarith
  have re: "mat_at lam i 1 = 0 \<longrightarrow>
            nreal (fst st') = nreal (fst st) + 1 \<and> snd st' = snd st
          \<and> 0 \<le> nreal (fst st) \<and> nat (nreal (fst st)) < N
          \<and> eig_real (fst fin) ! nat (nreal (fst st)) = mat_at lam i 0 / mat_at lam i 2
          \<and> eig_imag (fst fin) ! nat (nreal (fst st)) = 0
          \<and> eig_imag out ! nat (nreal (fst st)) = 0"
  proof
    assume z: "mat_at lam i 1 = 0"
    have "R < N" using RC iN by linarith
    moreover have "fill_upto N lam (quot_re lam) (quot_re lam) N (vec_resize N (eig_real r)) ! R
        = quot_re lam i"
      unfolding R_def by (rule fill_upto_real_slot [OF iN z length_vec_resize])
    moreover have "fill_upto N lam (\<lambda>i. 0) (quot_im lam) N (vec_resize N (eig_imag r)) ! R = 0"
      unfolding R_def by (rule fill_upto_real_slot [OF iN z length_vec_resize])
    ultimately show "nreal (fst st') = nreal (fst st) + 1 \<and> snd st' = snd st
          \<and> 0 \<le> nreal (fst st) \<and> nat (nreal (fst st)) < N
          \<and> eig_real (fst fin) ! nat (nreal (fst st)) = mat_at lam i 0 / mat_at lam i 2
          \<and> eig_imag (fst fin) ! nat (nreal (fst st)) = 0
          \<and> eig_imag out ! nat (nreal (fst st)) = 0"
      using z
      by (simp add: nr ni nr' ni' real_rows_Suc complex_rows_Suc R_def [symmetric]
          C_def [symmetric] fr fi out_imag quot_re_def)
  qed
  have cx: "mat_at lam i 1 \<noteq> 0 \<longrightarrow>
            nreal (fst st') = nreal (fst st) \<and> snd st' = snd st + 1
          \<and> 0 \<le> int N - 1 - snd st \<and> nat (int N - 1 - snd st) < N
          \<and> eig_real (fst fin) ! nat (int N - 1 - snd st) = mat_at lam i 0 / mat_at lam i 2
          \<and> eig_imag (fst fin) ! nat (int N - 1 - snd st) = mat_at lam i 1 / mat_at lam i 2
          \<and> eig_real out ! nat (int N - 1 - snd st) = mat_at lam i 0 / mat_at lam i 2
          \<and> eig_imag out ! nat (int N - 1 - snd st) = mat_at lam i 1 / mat_at lam i 2"
  proof
    assume nz: "mat_at lam i 1 \<noteq> 0"
    have b: "0 \<le> int N - 1 - int C" "N - 1 - C < N"
      using RC iN by linarith+
    have fre: "fill_upto N lam (quot_re lam) (quot_re lam) N (vec_resize N (eig_real r))
                 ! (N - 1 - C) = quot_re lam i"
      unfolding C_def by (rule fill_upto_complex_slot [OF iN nz length_vec_resize])
    have fim: "fill_upto N lam (\<lambda>i. 0) (quot_im lam) N (vec_resize N (eig_imag r))
                 ! (N - 1 - C) = quot_im lam i"
      unfolding C_def by (rule fill_upto_complex_slot [OF iN nz length_vec_resize])
    have "C < length (complex_rows lam N)"
      unfolding C_def by (rule complex_rows_nth_self(1) [OF iN nz])
    then have ge: "length (real_rows lam N) \<le> N - 1 - C"
      using rows_count [of lam N] by linarith
    have ln: "length (real_rows lam N) \<le> length (eig_real (fst fin))"
      using rows_count [of lam N] by (simp add: fr length_fill_upto length_vec_resize)
    have so: "eig_real out ! (N - 1 - C) = eig_real (fst fin) ! (N - 1 - C)"
      unfolding out_real nrN using ge ln by (simp add: sort_prefix_nth_ge)
    show "nreal (fst st') = nreal (fst st) \<and> snd st' = snd st + 1
          \<and> 0 \<le> int N - 1 - snd st \<and> nat (int N - 1 - snd st) < N
          \<and> eig_real (fst fin) ! nat (int N - 1 - snd st) = mat_at lam i 0 / mat_at lam i 2
          \<and> eig_imag (fst fin) ! nat (int N - 1 - snd st) = mat_at lam i 1 / mat_at lam i 2
          \<and> eig_real out ! nat (int N - 1 - snd st) = mat_at lam i 0 / mat_at lam i 2
          \<and> eig_imag out ! nat (int N - 1 - snd st) = mat_at lam i 1 / mat_at lam i 2"
      using nz b fre fim so
      by (simp add: nr ni nr' ni' real_rows_Suc complex_rows_Suc R_def [symmetric]
          C_def [symmetric] pos out_imag fr fi quot_re_def quot_im_def del: One_nat_def)
  qed
  show ?thesis
    using re cx by (rule conjI)
qed

lemma cubic_real_rows: "real_rows cubic_lambda 3 = [2]" "complex_rows cubic_lambda 3 = [0, 1]"
  by (simp_all add: real_rows_def complex_rows_def cubic_lambda_def mat_at_def upt_rec)

lemma cubic_state2:
  "classify_upto 3 cubic_lambda 2 (\<lparr>eig_real = [0, 0, 0], nreal = 0, eig_imag = [0, 0, 0]\<rparr>, 0)
    = (\<lparr>eig_real = [0, 0, 0], nreal = 0, eig_imag = [0, - 1, 1]\<rparr>, 2)"
  by (simp add: numeral_2_eq_2 classify_row_def cubic_lambda_def mat_at_def)

lemma cubic_state0:
  "classify_init 3 roots_empty
    = (\<lparr>eig_real = [0, 0, 0], nreal = 0, eig_imag = [0, 0, 0]\<rparr>, 0)"
  by (simp add: numeral_2_eq_2 classify_init_def classify_row_def roots_empty_def
      vec_resize_def cubic_lambda_def mat_at_def numeral_3_eq_3)

theorem classify_row_positions_witness:
  "gep_const cubic_lambda (fst (companion_pencil Double cubic)) (snd (companion_pencil Double cubic))
     = Some cubic_lambda
   \<and> 2 < order cubic
   \<and> mat_at cubic_lambda 2 1 = 0
   \<and> mat_at cubic_lambda 0 1 \<noteq> 0
   \<and> eig_real (fst (classify_upto 3 cubic_lambda 3 (classify_init 3 roots_empty))) ! 0 = 1
   \<and> eig_imag (fst (classify_upto 3 cubic_lambda 3 (classify_init 3 roots_empty))) ! 0 = 0
   \<and> eig_real (snd (eigensolveroots (gep_const cubic_lambda) Double cubic roots_empty)) ! 2 = 0
   \<and> eig_imag (snd (eigensolveroots (gep_const cubic_lambda) Double cubic roots_empty)) ! 2 = 1"
proof -
  have ok: "gep_const cubic_lambda (fst (companion_pencil Double cubic))
      (snd (companion_pencil Double cubic)) = Some cubic_lambda"
    by (simp add: gep_const_def)
  have o: "order cubic = 3"
    by (simp add: order_def cubic_def)
  have i2: "2 < order cubic" and i0: "0 < order cubic"
    by (simp_all add: o)
  have m: "mat_at cubic_lambda 2 1 = 0" "mat_at cubic_lambda 0 1 = 1"
    "mat_at cubic_lambda 2 0 = 1" "mat_at cubic_lambda 2 2 = 1"
    "mat_at cubic_lambda 0 0 = 0" "mat_at cubic_lambda 0 2 = 1"
    "mat_at cubic_lambda 2 (Suc 0) = 0" "mat_at cubic_lambda 0 (Suc 0) = 1"
    by (simp_all add: cubic_lambda_def mat_at_def)
  show ?thesis
    using classify_row_positions [where gep = "gep_const cubic_lambda", OF ok i2, of roots_empty]
      classify_row_positions [where gep = "gep_const cubic_lambda", OF ok i0, of roots_empty]
    by (simp add: ok o m cubic_state2 cubic_state0)
qed

lemma write_index_rows:
  assumes "i < N"
  shows "write_index N lam r i =
     (if mat_at lam i 1 = 0 then length (real_rows lam i)
      else N - 1 - length (complex_rows lam i))"
proof -
  have "length (complex_rows lam i) \<le> i"
    using rows_count [of lam i] by simp
  then have "nat (int N - 1 - int (length (complex_rows lam i)))
      = N - 1 - length (complex_rows lam i)"
    using assms by linarith
  then show ?thesis
    using classify_counts [of N lam i r] by (simp add: write_index_def split_def)
qed

lemma write_index_less: "i < N \<Longrightarrow> write_index N lam r i < N"
  using rows_count [of lam i] by (simp add: write_index_rows)

lemma write_index_neq:
  assumes "i < j" "j < N"
  shows "write_index N lam r i \<noteq> write_index N lam r j"
proof -
  have iN: "i < N" using assms by simp
  note ci = rows_count [of lam i] and cj = rows_count [of lam j]
  note mr = real_rows_mono [of i j lam] and mc = complex_rows_mono [of i j lam]
  show ?thesis
  proof (cases "mat_at lam i 1 = 0")
    case True
    with real_rows_strict [OF assms(1) True] ci cj assms show ?thesis
      by (simp add: write_index_rows iN) linarith
  next
    case False
    with complex_rows_strict [OF assms(1) False] ci cj assms mr mc show ?thesis
      by (simp add: write_index_rows iN) linarith
  qed
qed

lemma write_index_inj: "inj_on (write_index N lam r) {..<N}"
proof (rule inj_onI)
  fix i j
  assume "i \<in> {..<N}" "j \<in> {..<N}" and eq: "write_index N lam r i = write_index N lam r j"
  then have "i < N" "j < N" by simp_all
  then show "i = j"
    using eq write_index_neq [of i j N lam r] write_index_neq [of j i N lam r]
    by (cases i j rule: linorder_cases) simp_all
qed

lemma write_index_bij: "bij_betw (write_index N lam r) {..<N} {..<N}"
proof -
  have sub: "write_index N lam r ` {..<N} \<subseteq> {..<N}"
    by (auto simp: write_index_less)
  have "card (write_index N lam r ` {..<N}) = card {..<N}"
    by (rule card_image [OF write_index_inj])
  with sub have "write_index N lam r ` {..<N} = {..<N}"
    by (simp add: card_subset_eq)
  with write_index_inj show ?thesis
    by (simp add: bij_betw_def)
qed

lemma classify_step_write:
  "eig_real (fst (classify_upto N lam (Suc i) (classify_init N r)))
     = (eig_real (fst (classify_upto N lam i (classify_init N r))))
         [write_index N lam r i := mat_at lam i 0 / mat_at lam i 2]
   \<and> eig_imag (fst (classify_upto N lam (Suc i) (classify_init N r)))
     = (eig_imag (fst (classify_upto N lam i (classify_init N r))))
         [write_index N lam r i :=
            (if mat_at lam i 1 = 0 then 0 else mat_at lam i 1 / mat_at lam i 2)]"
  by (simp add: classify_row_def write_index_def split_def)

lemma classify_final_at_write_index:
  assumes "i < N"
  shows "eig_real (fst (classify_upto N lam N (classify_init N r))) ! write_index N lam r i
           = mat_at lam i 0 / mat_at lam i 2
       \<and> eig_imag (fst (classify_upto N lam N (classify_init N r))) ! write_index N lam r i
           = (if mat_at lam i 1 = 0 then 0 else mat_at lam i 1 / mat_at lam i 2)"
proof -
  have fr: "eig_real (fst (classify_upto N lam N (classify_init N r)))
      = fill_upto N lam (quot_re lam) (quot_re lam) N (vec_resize N (eig_real r))"
    and fi: "eig_imag (fst (classify_upto N lam N (classify_init N r)))
      = fill_upto N lam (\<lambda>i. 0) (quot_im lam) N (vec_resize N (eig_imag r))"
    using classify_as_fill [of N N lam r] by simp_all
  show ?thesis
  proof (cases "mat_at lam i 1 = 0")
    case True
    then show ?thesis
      using fill_upto_real_slot [OF assms True length_vec_resize, of "quot_re lam" "quot_re lam"
          "eig_real r"]
        fill_upto_real_slot [OF assms True length_vec_resize, of "\<lambda>i. 0" "quot_im lam"
          "eig_imag r"]
      by (simp add: fr fi write_index_rows [OF assms] quot_re_def)
  next
    case False
    then show ?thesis
      using fill_upto_complex_slot [OF assms False length_vec_resize, of "quot_re lam"
          "quot_re lam" "eig_real r"]
        fill_upto_complex_slot [OF assms False length_vec_resize, of "\<lambda>i. 0" "quot_im lam"
          "eig_imag r"]
      by (simp add: fr fi write_index_rows [OF assms] quot_re_def quot_im_def del: One_nat_def)
  qed
qed

text \<open>
  Claim C6. After a successful call of the generic solver on a polynomial of order \<open>N\<close>,
  \<open>nreal\<close> is the number of rows with a zero imaginary numerator, \<open>nimag\<close> the number of
  the other rows, and \<open>nreal + nimag = N\<close> with \<open>0 \<le> nreal \<le> N\<close>; both sequences have
  length \<open>N\<close>. Iteration \<open>i\<close> of the loop changes each sequence by exactly one write, at
  the position \<open>write_index i\<close>, which is inside the sequence, and stores there the
  quotients of row \<open>i\<close>; the rows are mapped to the positions \<open>0, \<dots>, N - 1\<close> one to one,
  so every position is written exactly once, and after the last row every position
  still holds what its row wrote. Whenever the rows with a nonzero imaginary numerator
  are \<open>k\<close> conjugate pairs, that is \<open>2 k\<close> rows, \<open>nreal + 2 k = N\<close>.
\<close>

theorem count_invariant:
  fixes gep :: GEP and ty :: numtype and p :: Polynomial and r :: roots
    and lam :: Spec1DMatrix and N :: nat and nimag :: int and out :: roots
    and state :: "nat \<Rightarrow> roots"
  defines "N \<equiv> order p"
    and "state \<equiv> \<lambda>k. fst (classify_upto (order p) lam k (classify_init (order p) r))"
    and "nimag \<equiv> snd (classify_upto (order p) lam (order p) (classify_init (order p) r))"
    and "out \<equiv> snd (eigensolveroots gep ty p r)"
  assumes ok: "gep (fst (companion_pencil ty p)) (snd (companion_pencil ty p)) = Some lam"
  shows "fst (eigensolveroots gep ty p r)
       \<and> nreal out = int (length (real_rows lam N))
       \<and> nimag = int (length (complex_rows lam N))
       \<and> nreal out + nimag = int N
       \<and> 0 \<le> nreal out \<and> nreal out \<le> int N
       \<and> length (eig_real out) = N \<and> length (eig_imag out) = N
       \<and> bij_betw (write_index N lam r) {..<N} {..<N}
       \<and> (\<forall>i<N.
             write_index N lam r i < length (eig_real (state i))
           \<and> write_index N lam r i < length (eig_imag (state i))
           \<and> eig_real (state (Suc i))
               = (eig_real (state i))[write_index N lam r i := mat_at lam i 0 / mat_at lam i 2]
           \<and> eig_imag (state (Suc i))
               = (eig_imag (state i))[write_index N lam r i :=
                    (if mat_at lam i 1 = 0 then 0 else mat_at lam i 1 / mat_at lam i 2)]
           \<and> eig_real (state N) ! write_index N lam r i = mat_at lam i 0 / mat_at lam i 2
           \<and> eig_imag (state N) ! write_index N lam r i
               = (if mat_at lam i 1 = 0 then 0 else mat_at lam i 1 / mat_at lam i 2)
           \<and> eig_imag out ! write_index N lam r i
               = (if mat_at lam i 1 = 0 then 0 else mat_at lam i 1 / mat_at lam i 2))
       \<and> (\<forall>k. length (complex_rows lam N) = 2 * k \<longrightarrow> nreal out + 2 * int k = int N)"
proof -
  note cnt = classify_counts [of "order p" lam "order p" r]
  note len = classify_lengths [of "order p" lam "order p" r]
  have RC: "length (real_rows lam N) + length (complex_rows lam N) = N"
    by (rule rows_count)
  have a: "fst (eigensolveroots gep ty p r)"
    and b: "nreal out = int (length (real_rows lam N))"
    and c: "nimag = int (length (complex_rows lam N))"
    and d: "length (eig_real out) = N" "length (eig_imag out) = N"
    and oi: "eig_imag out = eig_imag (state N)"
    using cnt len
    by (simp_all add: out_def nimag_def N_def state_def
        eigensolveroots_Some [where gep = gep, OF ok] sort_prefix_length)
  have e: "nreal out + nimag = int N"
    using RC unfolding b c by linarith
  have f: "\<forall>k. length (complex_rows lam N) = 2 * k \<longrightarrow> nreal out + 2 * int k = int N"
    using RC unfolding b by auto
  have w: "\<forall>i<N.
             write_index N lam r i < length (eig_real (state i))
           \<and> write_index N lam r i < length (eig_imag (state i))
           \<and> eig_real (state (Suc i))
               = (eig_real (state i))[write_index N lam r i := mat_at lam i 0 / mat_at lam i 2]
           \<and> eig_imag (state (Suc i))
               = (eig_imag (state i))[write_index N lam r i :=
                    (if mat_at lam i 1 = 0 then 0 else mat_at lam i 1 / mat_at lam i 2)]
           \<and> eig_real (state N) ! write_index N lam r i = mat_at lam i 0 / mat_at lam i 2
           \<and> eig_imag (state N) ! write_index N lam r i
               = (if mat_at lam i 1 = 0 then 0 else mat_at lam i 1 / mat_at lam i 2)
           \<and> eig_imag out ! write_index N lam r i
               = (if mat_at lam i 1 = 0 then 0 else mat_at lam i 1 / mat_at lam i 2)"
  proof (intro allI impI)
    fix i assume i: "i < N"
    have l: "length (eig_real (state i)) = N" "length (eig_imag (state i)) = N"
      using classify_lengths [of N lam i r] by (simp_all add: state_def N_def)
    have s: "eig_real (state (Suc i))
               = (eig_real (state i))[write_index N lam r i := mat_at lam i 0 / mat_at lam i 2]"
      "eig_imag (state (Suc i))
               = (eig_imag (state i))[write_index N lam r i :=
                    (if mat_at lam i 1 = 0 then 0 else mat_at lam i 1 / mat_at lam i 2)]"
      using classify_step_write [of N lam i r] unfolding state_def N_def by blast+
    have t: "eig_real (state N) ! write_index N lam r i = mat_at lam i 0 / mat_at lam i 2"
      "eig_imag (state N) ! write_index N lam r i
               = (if mat_at lam i 1 = 0 then 0 else mat_at lam i 1 / mat_at lam i 2)"
      using classify_final_at_write_index [OF i, of lam r] unfolding state_def N_def by blast+
    show "write_index N lam r i < length (eig_real (state i))
           \<and> write_index N lam r i < length (eig_imag (state i))
           \<and> eig_real (state (Suc i))
               = (eig_real (state i))[write_index N lam r i := mat_at lam i 0 / mat_at lam i 2]
           \<and> eig_imag (state (Suc i))
               = (eig_imag (state i))[write_index N lam r i :=
                    (if mat_at lam i 1 = 0 then 0 else mat_at lam i 1 / mat_at lam i 2)]
           \<and> eig_real (state N) ! write_index N lam r i = mat_at lam i 0 / mat_at lam i 2
           \<and> eig_imag (state N) ! write_index N lam r i
               = (if mat_at lam i 1 = 0 then 0 else mat_at lam i 1 / mat_at lam i 2)
           \<and> eig_imag out ! write_index N lam r i
               = (if mat_at lam i 1 = 0 then 0 else mat_at lam i 1 / mat_at lam i 2)"
      unfolding oi l using write_index_less [OF i, of lam r] s t by blast
  qed
  have g: "0 \<le> nreal out" "nreal out \<le> int N"
    using RC unfolding b by linarith+
  show ?thesis
    using a b c d e f g w write_index_bij [of N lam r] by blast
qed

lemma cubic_write_index: "write_index 3 cubic_lambda roots_empty 0 = 2"
  by (simp add: write_index_def cubic_state0 cubic_lambda_def mat_at_def)

theorem count_invariant_witness:
  "gep_const cubic_lambda (fst (companion_pencil Double cubic)) (snd (companion_pencil Double cubic))
     = Some cubic_lambda
   \<and> order cubic = 3
   \<and> length (complex_rows cubic_lambda 3) = 2 * 1
   \<and> nreal (snd (eigensolveroots (gep_const cubic_lambda) Double cubic roots_empty)) = 1
   \<and> nreal (snd (eigensolveroots (gep_const cubic_lambda) Double cubic roots_empty)) + 2 * int 1
       = int 3
   \<and> bij_betw (write_index 3 cubic_lambda roots_empty) {..<3} {..<3}
   \<and> write_index 3 cubic_lambda roots_empty 0 = 2
   \<and> eig_real (fst (classify_upto 3 cubic_lambda 3 (classify_init 3 roots_empty))) ! 2 = 0
   \<and> eig_imag (fst (classify_upto 3 cubic_lambda 3 (classify_init 3 roots_empty))) ! 2 = 1
   \<and> eig_imag (snd (eigensolveroots (gep_const cubic_lambda) Double cubic roots_empty)) ! 2 = 1"
proof -
  have ok: "gep_const cubic_lambda (fst (companion_pencil Double cubic))
      (snd (companion_pencil Double cubic)) = Some cubic_lambda"
    by (simp add: gep_const_def)
  have o: "order cubic = 3"
    by (simp add: order_def cubic_def)
  have m: "mat_at cubic_lambda 0 1 = 1" "mat_at cubic_lambda 0 0 = 0" "mat_at cubic_lambda 0 2 = 1"
    by (simp_all add: cubic_lambda_def mat_at_def)
  note T = count_invariant [where gep = "gep_const cubic_lambda", OF ok, of roots_empty,
      unfolded o]
  note W = T [THEN conjunct2, THEN conjunct2, THEN conjunct2, THEN conjunct2, THEN conjunct2,
      THEN conjunct2, THEN conjunct2, THEN conjunct2, THEN conjunct2, THEN conjunct1,
      rule_format, of 0, unfolded cubic_write_index m]
  have A: "nreal (snd (eigensolveroots (gep_const cubic_lambda) Double cubic roots_empty)) = 1"
    using T [THEN conjunct2, THEN conjunct1] by (simp add: cubic_real_rows)
  have B: "bij_betw (write_index 3 cubic_lambda roots_empty) {..<3} {..<3}"
    by (rule T [THEN conjunct2, THEN conjunct2, THEN conjunct2, THEN conjunct2, THEN conjunct2,
      THEN conjunct2, THEN conjunct2, THEN conjunct2, THEN conjunct1])
  have C: "eig_real (fst (classify_upto 3 cubic_lambda 3 (classify_init 3 roots_empty))) ! 2 = 0"
    "eig_imag (fst (classify_upto 3 cubic_lambda 3 (classify_init 3 roots_empty))) ! 2 = 1"
    "eig_imag (snd (eigensolveroots (gep_const cubic_lambda) Double cubic roots_empty)) ! 2 = 1"
    using W by simp_all
  show ?thesis
    using A B C by (simp add: ok o cubic_real_rows cubic_write_index)
qed

section \<open>Failure of the eigenvalue solver\<close>

text \<open>
  Claim C1, as amended. When the eigenvalue solver fails, the generic solver returns
  false and leaves \<open>eig_real\<close>, \<open>eig_imag\<close> and \<open>nreal\<close> as they were on entry: the
  resize of lines 78 and 79 stands after the return of line 72. When the eigenvalue
  solver succeeds, the call returns true with both sequences of length \<open>N\<close>.
\<close>

theorem resize_after_solve:
  "(gep (fst (companion_pencil ty p)) (snd (companion_pencil ty p)) = None \<longrightarrow>
      eigensolveroots gep ty p r = (False, r))
   \<and> (gep (fst (companion_pencil ty p)) (snd (companion_pencil ty p)) \<noteq> None \<longrightarrow>
        fst (eigensolveroots gep ty p r)
      \<and> length (eig_real (snd (eigensolveroots gep ty p r))) = order p
      \<and> length (eig_imag (snd (eigensolveroots gep ty p r))) = order p)"
proof (rule conjI; rule impI)
  assume "gep (fst (companion_pencil ty p)) (snd (companion_pencil ty p)) = None"
  then show "eigensolveroots gep ty p r = (False, r)"
    by (rule eigensolveroots_None)
next
  assume "gep (fst (companion_pencil ty p)) (snd (companion_pencil ty p)) \<noteq> None"
  then obtain lam where
    ok: "gep (fst (companion_pencil ty p)) (snd (companion_pencil ty p)) = Some lam"
    by auto
  show "fst (eigensolveroots gep ty p r)
      \<and> length (eig_real (snd (eigensolveroots gep ty p r))) = order p
      \<and> length (eig_imag (snd (eigensolveroots gep ty p r))) = order p"
    using classify_lengths [of "order p" lam "order p" r]
    by (simp add: eigensolveroots_Some [where gep = gep, OF ok] sort_prefix_length)
qed

theorem resize_after_solve_witness:
  "gep_fail (fst (companion_pencil Double quadratic)) (snd (companion_pencil Double quadratic)) = None
   \<and> eigensolveroots gep_fail Double quadratic \<lparr>eig_real = [4], nreal = 9, eig_imag = []\<rparr>
       = (False, \<lparr>eig_real = [4], nreal = 9, eig_imag = []\<rparr>)
   \<and> gep_const quadratic_lambda (fst (companion_pencil Double quadratic))
        (snd (companion_pencil Double quadratic)) \<noteq> None
   \<and> order quadratic = 2
   \<and> fst (eigensolveroots (gep_const quadratic_lambda) Double quadratic
        \<lparr>eig_real = [4], nreal = 9, eig_imag = []\<rparr>)
   \<and> length (eig_real (snd (eigensolveroots (gep_const quadratic_lambda) Double quadratic
        \<lparr>eig_real = [4], nreal = 9, eig_imag = []\<rparr>))) = 2
   \<and> length (eig_imag (snd (eigensolveroots (gep_const quadratic_lambda) Double quadratic
        \<lparr>eig_real = [4], nreal = 9, eig_imag = []\<rparr>))) = 2"
proof -
  have f: "gep_fail (fst (companion_pencil Double quadratic))
      (snd (companion_pencil Double quadratic)) = None"
    by (simp add: gep_fail_def)
  have s: "gep_const quadratic_lambda (fst (companion_pencil Double quadratic))
        (snd (companion_pencil Double quadratic)) \<noteq> None"
    by (simp add: gep_const_def)
  have o: "order quadratic = 2"
    by (simp add: order_def quadratic_def)
  show ?thesis
    using resize_after_solve [where gep = gep_fail and ty = Double and p = quadratic
          and r = "\<lparr>eig_real = [4], nreal = 9, eig_imag = []\<rparr>", THEN conjunct1, THEN mp, OF f]
      resize_after_solve [where gep = "gep_const quadratic_lambda" and ty = Double
          and p = quadratic and r = "\<lparr>eig_real = [4], nreal = 9, eig_imag = []\<rparr>",
          THEN conjunct2, THEN mp, OF s]
    by (simp add: f s o)
qed

text \<open>
  The claim as stated fails: on \<open>x\<^sup>2 - 1\<close> with empty sequences and a failing eigenvalue
  solver the call returns false and both sequences still have length 0, not 2.
\<close>

theorem no_resize_on_failure_counterexample:
  "\<not> fst (eigensolveroots gep_fail Double quadratic roots_empty)
   \<and> order quadratic = 2
   \<and> length (eig_real (snd (eigensolveroots gep_fail Double quadratic roots_empty))) = 0
   \<and> length (eig_imag (snd (eigensolveroots gep_fail Double quadratic roots_empty))) = 0
   \<and> length (eig_real (snd (eigensolveroots gep_fail Double quadratic roots_empty)))
        \<noteq> order quadratic"
  by (simp add: eigensolveroots_None gep_fail_def roots_empty_def order_def quadratic_def)

section \<open>The packing loop of the node solvers\<close>

lemma pack_counts:
  "nreal (pack_upto lam k nd) = nreal nd + int (length (real_rows lam k))"
  by (induction k) (simp_all add: pack_row_def real_rows_Suc real_rows_def)

lemma pack_eig_real:
  assumes "k \<le> length (eig_real nd)" "nreal nd = 0"
  shows "eig_real (pack_upto lam k nd) =
     map (quot_re lam) (real_rows lam k) @ drop (length (real_rows lam k)) (eig_real nd)"
  using assms
proof (induction k)
  case 0
  then show ?case by (simp add: real_rows_def)
next
  case (Suc k)
  define R where "R = length (real_rows lam k)"
  have Rk: "R \<le> k"
    using rows_count [of lam k] by (simp add: R_def)
  with Suc.prems have RN: "R < length (eig_real nd)" by simp
  have IH: "eig_real (pack_upto lam k nd) =
     map (quot_re lam) (real_rows lam k) @ drop R (eig_real nd)"
    using Suc by (simp add: R_def)
  have nr: "nat (nreal (pack_upto lam k nd)) = R"
    using Suc.prems by (simp add: pack_counts R_def)
  show ?case
  proof (cases "mat_at lam k 1 = 0")
    case True
    have "drop R (eig_real nd) = eig_real nd ! R # drop (Suc R) (eig_real nd)"
      using RN by (simp add: Cons_nth_drop_Suc)
    then have "(map (quot_re lam) (real_rows lam k) @ drop R (eig_real nd))[R := quot_re lam k]
       = map (quot_re lam) (real_rows lam k) @ quot_re lam k # drop (Suc R) (eig_real nd)"
      by (simp add: R_def list_update_append)
    then show ?thesis
      using True by (simp add: pack_row_def nr IH real_rows_Suc R_def [symmetric] quot_re_def)
  next
    case False
    then show ?thesis
      by (simp add: pack_row_def IH real_rows_Suc R_def)
  qed
qed

lemma pack_real_result:
  "nreal (pack_real N lam nd) = int (length (real_rows lam N))"
  "eig_real (pack_real N lam nd) =
     sort (map (quot_re lam) (real_rows lam N))
       @ drop (length (real_rows lam N)) (vec_resize N (eig_real nd))"
proof -
  define nd0 where "nd0 = nd\<lparr>nreal := 0, eig_real := vec_resize N (eig_real nd)\<rparr>"
  have c: "nreal (pack_upto lam N nd0) = int (length (real_rows lam N))"
    by (simp add: pack_counts nd0_def)
  have e: "eig_real (pack_upto lam N nd0) =
     map (quot_re lam) (real_rows lam N)
       @ drop (length (real_rows lam N)) (vec_resize N (eig_real nd))"
    using pack_eig_real [of N nd0 lam] by (simp add: nd0_def length_vec_resize)
  show "nreal (pack_real N lam nd) = int (length (real_rows lam N))"
    using c by (simp add: pack_real_def Let_def nd0_def)
  show "eig_real (pack_real N lam nd) =
     sort (map (quot_re lam) (real_rows lam N))
       @ drop (length (real_rows lam N)) (vec_resize N (eig_real nd))"
    using c e by (simp add: pack_real_def Let_def nd0_def [symmetric] sort_prefix_def)
qed

lemma pack_real_partial:
  "length (eig_real (pack_real N lam nd)) = N
   \<and> nreal (pack_real N lam nd) = int (length (real_rows lam N))
   \<and> take (nat (nreal (pack_real N lam nd))) (eig_real (pack_real N lam nd))
       = sort (map (\<lambda>i. mat_at lam i 0 / mat_at lam i 2) (real_rows lam N))
   \<and> drop (nat (nreal (pack_real N lam nd))) (eig_real (pack_real N lam nd))
       = drop (nat (nreal (pack_real N lam nd))) (vec_resize N (eig_real nd))
   \<and> (nreal (pack_real N lam nd) < int N \<longleftrightarrow> (\<exists>i<N. mat_at lam i 1 \<noteq> 0))"
proof -
  have le: "length (real_rows lam N) \<le> N"
    using rows_count [of lam N] by simp
  have q: "quot_re lam = (\<lambda>i. mat_at lam i 0 / mat_at lam i 2)"
    by (simp add: quot_re_def fun_eq_iff)
  show ?thesis
    using le real_rows_all_iff [of lam N]
    by (simp add: pack_real_result length_vec_resize q)
qed

lemma pack_real_sorted:
  "sorted (take (nat (nreal (pack_real N lam nd))) (eig_real (pack_real N lam nd)))"
  by (simp add: pack_real_def Let_def sort_prefix_take_sorted)

lemma lobatto_Some:
  assumes "3 \<le> ord"
    and "gep (fst (lobatto_pencil ty ord)) (snd (lobatto_pencil ty ord)) = Some lam"
  shows "eigensolveroots_lobatto gep ty ord nd = (True, pack_real (ord - 1) lam nd)"
  using assms by (simp add: eigensolveroots_lobatto_def Let_def split_def)

lemma laguerre_Some:
  assumes "2 \<le> ord"
    and "gep (fst (laguerre_pencil ty ord)) (snd (laguerre_pencil ty ord)) = Some lam"
  shows "eigensolveroots_laguerre gep ty ord nd = (True, pack_real ord lam nd)"
  using assms by (simp add: eigensolveroots_laguerre_def Let_def split_def)

text \<open>
  Claim C10. In the general case of the Lobatto solver (order at least 3, \<open>N = order - 1\<close>)
  and of the Laguerre solver (order at least 2, \<open>N = order\<close>), a successful call returns
  \<open>eig_real\<close> with length \<open>N\<close> and \<open>nreal\<close> equal to the number of rows with a zero
  imaginary numerator. The first \<open>nreal\<close> entries are the sorted quotients of those rows;
  the rows with a nonzero imaginary numerator are dropped, and the entries from \<open>nreal\<close>
  on are never written: they are what the resize left there (the caller's old entries,
  or the zero fill). \<open>nreal < N\<close> holds exactly when some row has a nonzero imaginary
  numerator.
\<close>

theorem node_solvers_partial_fill:
  "(3 \<le> ord \<and> gep (fst (lobatto_pencil ty ord)) (snd (lobatto_pencil ty ord)) = Some lam \<longrightarrow>
      fst (eigensolveroots_lobatto gep ty ord nd)
    \<and> length (eig_real (snd (eigensolveroots_lobatto gep ty ord nd))) = ord - 1
    \<and> nreal (snd (eigensolveroots_lobatto gep ty ord nd)) = int (length (real_rows lam (ord - 1)))
    \<and> take (nat (nreal (snd (eigensolveroots_lobatto gep ty ord nd))))
           (eig_real (snd (eigensolveroots_lobatto gep ty ord nd)))
        = sort (map (\<lambda>i. mat_at lam i 0 / mat_at lam i 2) (real_rows lam (ord - 1)))
    \<and> drop (nat (nreal (snd (eigensolveroots_lobatto gep ty ord nd))))
           (eig_real (snd (eigensolveroots_lobatto gep ty ord nd)))
        = drop (nat (nreal (snd (eigensolveroots_lobatto gep ty ord nd))))
            (vec_resize (ord - 1) (eig_real nd))
    \<and> (nreal (snd (eigensolveroots_lobatto gep ty ord nd)) < int (ord - 1)
         \<longleftrightarrow> (\<exists>i<ord - 1. mat_at lam i 1 \<noteq> 0)))
 \<and> (2 \<le> ord \<and> gep (fst (laguerre_pencil ty ord)) (snd (laguerre_pencil ty ord)) = Some lam \<longrightarrow>
      fst (eigensolveroots_laguerre gep ty ord nd)
    \<and> length (eig_real (snd (eigensolveroots_laguerre gep ty ord nd))) = ord
    \<and> nreal (snd (eigensolveroots_laguerre gep ty ord nd)) = int (length (real_rows lam ord))
    \<and> take (nat (nreal (snd (eigensolveroots_laguerre gep ty ord nd))))
           (eig_real (snd (eigensolveroots_laguerre gep ty ord nd)))
        = sort (map (\<lambda>i. mat_at lam i 0 / mat_at lam i 2) (real_rows lam ord))
    \<and> drop (nat (nreal (snd (eigensolveroots_laguerre gep ty ord nd))))
           (eig_real (snd (eigensolveroots_laguerre gep ty ord nd)))
        = drop (nat (nreal (snd (eigensolveroots_laguerre gep ty ord nd))))
            (vec_resize ord (eig_real nd))
    \<and> (nreal (snd (eigensolveroots_laguerre gep ty ord nd)) < int ord
         \<longleftrightarrow> (\<exists>i<ord. mat_at lam i 1 \<noteq> 0)))"
proof (rule conjI; rule impI)
  assume a: "3 \<le> ord \<and>
    gep (fst (lobatto_pencil ty ord)) (snd (lobatto_pencil ty ord)) = Some lam"
  then have eq: "eigensolveroots_lobatto gep ty ord nd = (True, pack_real (ord - 1) lam nd)"
    by (simp add: lobatto_Some [where gep = gep])
  show "fst (eigensolveroots_lobatto gep ty ord nd)
    \<and> length (eig_real (snd (eigensolveroots_lobatto gep ty ord nd))) = ord - 1
    \<and> nreal (snd (eigensolveroots_lobatto gep ty ord nd)) = int (length (real_rows lam (ord - 1)))
    \<and> take (nat (nreal (snd (eigensolveroots_lobatto gep ty ord nd))))
           (eig_real (snd (eigensolveroots_lobatto gep ty ord nd)))
        = sort (map (\<lambda>i. mat_at lam i 0 / mat_at lam i 2) (real_rows lam (ord - 1)))
    \<and> drop (nat (nreal (snd (eigensolveroots_lobatto gep ty ord nd))))
           (eig_real (snd (eigensolveroots_lobatto gep ty ord nd)))
        = drop (nat (nreal (snd (eigensolveroots_lobatto gep ty ord nd))))
            (vec_resize (ord - 1) (eig_real nd))
    \<and> (nreal (snd (eigensolveroots_lobatto gep ty ord nd)) < int (ord - 1)
         \<longleftrightarrow> (\<exists>i<ord - 1. mat_at lam i 1 \<noteq> 0))"
    unfolding eq fst_conv snd_conv
    by (rule conjI [OF TrueI pack_real_partial])
next
  assume a: "2 \<le> ord \<and>
    gep (fst (laguerre_pencil ty ord)) (snd (laguerre_pencil ty ord)) = Some lam"
  then have eq: "eigensolveroots_laguerre gep ty ord nd = (True, pack_real ord lam nd)"
    by (simp add: laguerre_Some [where gep = gep])
  show "fst (eigensolveroots_laguerre gep ty ord nd)
    \<and> length (eig_real (snd (eigensolveroots_laguerre gep ty ord nd))) = ord
    \<and> nreal (snd (eigensolveroots_laguerre gep ty ord nd)) = int (length (real_rows lam ord))
    \<and> take (nat (nreal (snd (eigensolveroots_laguerre gep ty ord nd))))
           (eig_real (snd (eigensolveroots_laguerre gep ty ord nd)))
        = sort (map (\<lambda>i. mat_at lam i 0 / mat_at lam i 2) (real_rows lam ord))
    \<and> drop (nat (nreal (snd (eigensolveroots_laguerre gep ty ord nd))))
           (eig_real (snd (eigensolveroots_laguerre gep ty ord nd)))
        = drop (nat (nreal (snd (eigensolveroots_laguerre gep ty ord nd))))
            (vec_resize ord (eig_real nd))
    \<and> (nreal (snd (eigensolveroots_laguerre gep ty ord nd)) < int ord
         \<longleftrightarrow> (\<exists>i<ord. mat_at lam i 1 \<noteq> 0))"
    unfolding eq fst_conv snd_conv
    by (rule conjI [OF TrueI pack_real_partial])
qed

lemma mixed_rows: "real_rows mixed_lambda 2 = [0]"
  "mat_at mixed_lambda 0 0 = 1" "mat_at mixed_lambda 0 2 = 1"
  by (simp_all add: real_rows_def mixed_lambda_def mat_at_def upt_rec)

theorem node_solvers_partial_fill_witness:
  "(3::nat) \<le> 3
   \<and> gep_const mixed_lambda (fst (lobatto_pencil Float 3)) (snd (lobatto_pencil Float 3))
       = Some mixed_lambda
   \<and> fst (eigensolveroots_lobatto (gep_const mixed_lambda) Float 3 nodes_used)
   \<and> length (eig_real (snd (eigensolveroots_lobatto (gep_const mixed_lambda) Float 3 nodes_used))) = 2
   \<and> nreal (snd (eigensolveroots_lobatto (gep_const mixed_lambda) Float 3 nodes_used)) = 1
   \<and> take 1 (eig_real (snd (eigensolveroots_lobatto (gep_const mixed_lambda) Float 3 nodes_used)))
       = [1]
   \<and> drop 1 (eig_real (snd (eigensolveroots_lobatto (gep_const mixed_lambda) Float 3 nodes_used)))
       = [8]
   \<and> (2::nat) \<le> 2
   \<and> gep_const mixed_lambda (fst (laguerre_pencil Float 2)) (snd (laguerre_pencil Float 2))
       = Some mixed_lambda
   \<and> fst (eigensolveroots_laguerre (gep_const mixed_lambda) Float 2 nodes_used)
   \<and> length (eig_real (snd (eigensolveroots_laguerre (gep_const mixed_lambda) Float 2 nodes_used))) = 2
   \<and> nreal (snd (eigensolveroots_laguerre (gep_const mixed_lambda) Float 2 nodes_used)) = 1
   \<and> take 1 (eig_real (snd (eigensolveroots_laguerre (gep_const mixed_lambda) Float 2 nodes_used)))
       = [1]
   \<and> drop 1 (eig_real (snd (eigensolveroots_laguerre (gep_const mixed_lambda) Float 2 nodes_used)))
       = [8]"
proof -
  have g: "gep_const mixed_lambda A B = Some mixed_lambda" for A B
    by (simp add: gep_const_def)
  have v: "vec_resize 2 (eig_real nodes_used) = [7, 8]"
    by (simp add: vec_resize_def nodes_used_def)
  have three: "(3::nat) - 1 = 2" by simp
  have h1: "(3::nat) \<le> 3 \<and> gep_const mixed_lambda (fst (lobatto_pencil Float 3))
      (snd (lobatto_pencil Float 3)) = Some mixed_lambda"
    by (simp add: g)
  have h2: "(2::nat) \<le> 2 \<and> gep_const mixed_lambda (fst (laguerre_pencil Float 2))
      (snd (laguerre_pencil Float 2)) = Some mixed_lambda"
    by (simp add: g)
  show ?thesis
    using node_solvers_partial_fill [where gep = "gep_const mixed_lambda" and ty = Float
        and ord = 3 and lam = mixed_lambda and nd = nodes_used, THEN conjunct1, THEN mp, OF h1]
      node_solvers_partial_fill [where gep = "gep_const mixed_lambda" and ty = Float
        and ord = 2 and lam = mixed_lambda and nd = nodes_used, THEN conjunct2, THEN mp, OF h2]
    unfolding three
    by (elim conjE) (simp add: g v mixed_rows)
qed

section \<open>Sortedness of the real prefix\<close>

lemma eigensolveroots_sorted:
  "fst (eigensolveroots gep ty p r) \<Longrightarrow>
   sorted (take (nat (nreal (snd (eigensolveroots gep ty p r))))
     (eig_real (snd (eigensolveroots gep ty p r))))"
  by (simp add: eigensolveroots_def Let_def split_def sort_prefix_take_sorted
      split: option.splits)

lemma sorted_take_one:
  "sorted (take (Suc 0) xs @ take (Suc 0 - length xs) [c :: real])"
  by (cases xs) simp_all

lemma lobatto_sorted:
  "fst (eigensolveroots_lobatto gep ty ord nd) \<Longrightarrow> ord = 1 \<or> ord = 2 \<longrightarrow> eig_real nd = [] \<Longrightarrow>
   sorted (take (nat (nreal (snd (eigensolveroots_lobatto gep ty ord nd))))
     (eig_real (snd (eigensolveroots_lobatto gep ty ord nd))))"
  by (simp add: eigensolveroots_lobatto_def Let_def split_def pack_real_sorted push_back_def
      sorted_take_one split: option.splits if_splits)

lemma laguerre_sorted:
  "fst (eigensolveroots_laguerre gep ty ord nd) \<Longrightarrow>
   sorted (take (nat (nreal (snd (eigensolveroots_laguerre gep ty ord nd))))
     (eig_real (snd (eigensolveroots_laguerre gep ty ord nd))))"
  by (simp add: eigensolveroots_laguerre_def Let_def split_def pack_real_sorted push_back_def
      sorted_take_one split: option.splits if_splits)

text \<open>
  Where the prefix is sorted: after every successful call of the generic solver and of
  the Laguerre solver, whatever the sequences held on entry, and after every successful
  call of the Lobatto solver unless the order is 1 or 2 and \<open>eig_real\<close> is not empty on
  entry.
\<close>

lemma sorted_real_prefix:
  "(fst (eigensolveroots gep ty p r) \<longrightarrow>
      sorted (take (nat (nreal (snd (eigensolveroots gep ty p r))))
        (eig_real (snd (eigensolveroots gep ty p r)))))
   \<and> (fst (eigensolveroots_lobatto gep ty ord nd)
        \<and> (ord = 1 \<or> ord = 2 \<longrightarrow> eig_real nd = []) \<longrightarrow>
      sorted (take (nat (nreal (snd (eigensolveroots_lobatto gep ty ord nd))))
        (eig_real (snd (eigensolveroots_lobatto gep ty ord nd)))))
   \<and> (fst (eigensolveroots_laguerre gep ty ord nd) \<longrightarrow>
      sorted (take (nat (nreal (snd (eigensolveroots_laguerre gep ty ord nd))))
        (eig_real (snd (eigensolveroots_laguerre gep ty ord nd)))))"
  using eigensolveroots_sorted [of gep ty p r] lobatto_sorted [of gep ty ord nd]
    laguerre_sorted [of gep ty ord nd]
  by blast

lemma quadratic_solved:
  "eigensolveroots (gep_const quadratic_lambda) Double quadratic roots_empty
     = (True, \<lparr>eig_real = [- 1, 1], nreal = 2, eig_imag = [0, 0]\<rparr>)"
  by (simp add: eigensolveroots_def Let_def split_def gep_const_def order_def quadratic_def
      numeral_2_eq_2 classify_init_def classify_row_def roots_empty_def vec_resize_def
      quadratic_lambda_def mat_at_def sort_prefix_def)

lemma pack_quadratic_used:
  "pack_real 2 quadratic_lambda \<lparr>eig_real = [5], nreal = n\<rparr> = \<lparr>eig_real = [- 1, 1], nreal = 2\<rparr>"
  by (simp add: pack_real_def Let_def numeral_2_eq_2 pack_row_def vec_resize_def
      quadratic_lambda_def mat_at_def sort_prefix_def)

text \<open>
  Claim C3. After every successful call of any of the three solvers the prefix
  \<open>eig_real[0..nreal)\<close> is to be non-decreasing. The Lobatto shortcuts for the orders 1
  and 2 append their values to the sequence they are given and set \<open>nreal\<close> to 2 or 3
  without resetting or sorting it: called with order 1 on the sequence \<open>[5]\<close> the solver
  returns \<open>[5, -1, 1]\<close> with \<open>nreal = 2\<close>, and the prefix \<open>[5, -1]\<close> is not sorted. The
  default branch of the same function resets, resizes and sorts: called with order 3 on
  the same sequence it returns the sorted \<open>[-1, 1]\<close>.
\<close>

theorem lobatto_shortcut_unsorted_on_used:
  "eigensolveroots_lobatto gep_fail Double 1 \<lparr>eig_real = [5], nreal = 0\<rparr>
     = (True, \<lparr>eig_real = [5, - 1, 1], nreal = 2\<rparr>)
   \<and> \<not> sorted (take (nat (nreal (snd (eigensolveroots_lobatto gep_fail Double 1
           \<lparr>eig_real = [5], nreal = 0\<rparr>))))
         (eig_real (snd (eigensolveroots_lobatto gep_fail Double 1
           \<lparr>eig_real = [5], nreal = 0\<rparr>))))
   \<and> eigensolveroots_lobatto (gep_const quadratic_lambda) Double 3 \<lparr>eig_real = [5], nreal = 0\<rparr>
     = (True, \<lparr>eig_real = [- 1, 1], nreal = 2\<rparr>)
   \<and> sorted (take (nat (nreal (snd (eigensolveroots_lobatto (gep_const quadratic_lambda) Double 3
           \<lparr>eig_real = [5], nreal = 0\<rparr>))))
         (eig_real (snd (eigensolveroots_lobatto (gep_const quadratic_lambda) Double 3
           \<lparr>eig_real = [5], nreal = 0\<rparr>))))"
proof -
  have a: "eigensolveroots_lobatto gep_fail Double 1 \<lparr>eig_real = [5], nreal = 0\<rparr>
     = (True, \<lparr>eig_real = [5, - 1, 1], nreal = 2\<rparr>)"
    by (simp add: eigensolveroots_lobatto_def push_back_def)
  have b: "eigensolveroots_lobatto (gep_const quadratic_lambda) Double 3
      \<lparr>eig_real = [5], nreal = 0\<rparr> = (True, \<lparr>eig_real = [- 1, 1], nreal = 2\<rparr>)"
    by (simp add: eigensolveroots_lobatto_def Let_def split_def gep_const_def
        pack_quadratic_used)
  show ?thesis
    unfolding a b by (simp add: numeral_2_eq_2)
qed

section \<open>The closed-form shortcuts\<close>

text \<open>
  On a sequence that is empty on entry the shortcuts return exactly the values of the
  specification.
\<close>

lemma lobatto_shortcuts:
  assumes "eig_real nd = []"
  shows "eigensolveroots_lobatto gep ty 0 nd = (True, \<lparr>eig_real = [0], nreal = 1\<rparr>)
       \<and> eigensolveroots_lobatto gep ty 1 nd = (True, \<lparr>eig_real = [- 1, 1], nreal = 2\<rparr>)
       \<and> eigensolveroots_lobatto gep ty 2 nd = (True, \<lparr>eig_real = [- 1, 0, 1], nreal = 3\<rparr>)"
  using assms by (simp add: eigensolveroots_lobatto_def push_back_def)

lemma laguerre_shortcuts:
  assumes "eig_real nd = []"
  shows "eigensolveroots_laguerre gep ty 0 nd = (True, \<lparr>eig_real = [], nreal = 0\<rparr>)
       \<and> eigensolveroots_laguerre gep ty 1 nd = (True, \<lparr>eig_real = [2], nreal = 1\<rparr>)"
  using assms by (simp add: eigensolveroots_laguerre_def push_back_def)

text \<open>
  Claim C7. Called with order 0, 1 or 2 the Lobatto solver is to return success with
  \<open>eig_real\<close> exactly \<open>[0]\<close>, \<open>[-1, 1]\<close> or \<open>[-1, 0, 1]\<close> and \<open>nreal\<close> 1, 2 or 3. The
  shortcut branches \<^verbatim>\<open>push_back\<close> onto the sequence they are given: called on the
  sequence \<open>[5]\<close> they return \<open>[5, 0]\<close>, \<open>[5, -1, 1]\<close> and \<open>[5, -1, 0, 1]\<close> with the same
  counts, so the counted prefix starts with the old entry. The default branch of the
  same function resets \<open>nreal\<close>, resizes and writes from position 0: called with order 3
  on \<open>[5]\<close> it returns exactly the two eigenvalues.
\<close>

theorem lobatto_shortcuts_on_used:
  "eigensolveroots_lobatto gep_fail Double 0 \<lparr>eig_real = [5], nreal = 0\<rparr>
     = (True, \<lparr>eig_real = [5, 0], nreal = 1\<rparr>)
   \<and> eigensolveroots_lobatto gep_fail Double 1 \<lparr>eig_real = [5], nreal = 0\<rparr>
     = (True, \<lparr>eig_real = [5, - 1, 1], nreal = 2\<rparr>)
   \<and> eigensolveroots_lobatto gep_fail Double 2 \<lparr>eig_real = [5], nreal = 0\<rparr>
     = (True, \<lparr>eig_real = [5, - 1, 0, 1], nreal = 3\<rparr>)
   \<and> eig_real (snd (eigensolveroots_lobatto gep_fail Double 0 \<lparr>eig_real = [5], nreal = 0\<rparr>))
       \<noteq> [0]
   \<and> eigensolveroots_lobatto (gep_const quadratic_lambda) Double 3 \<lparr>eig_real = [5], nreal = 0\<rparr>
     = (True, \<lparr>eig_real = [- 1, 1], nreal = 2\<rparr>)"
  by (simp add: eigensolveroots_lobatto_def push_back_def Let_def split_def gep_const_def
      pack_quadratic_used)

text \<open>
  Claim C8. Called with order 0 the Laguerre solver is to return success with \<open>eig_real\<close>
  empty and \<open>nreal = 0\<close>, and called with order 1 with \<open>eig_real\<close> exactly \<open>[2]\<close> and
  \<open>nreal = 1\<close>. The branch for order 0 leaves the sequence as it is and the branch for
  order 1 appends to it: called on the sequence \<open>[5]\<close> they return \<open>[5]\<close> with
  \<open>nreal = 0\<close> and \<open>[5, 2]\<close> with \<open>nreal = 1\<close>, whose counted prefix is the old entry.
  The default branch of the same function resets \<open>nreal\<close>, resizes and writes from
  position 0: called with order 2 on \<open>[5]\<close> it returns exactly the two eigenvalues.
\<close>

theorem laguerre_shortcuts_on_used:
  "eigensolveroots_laguerre gep_fail Double 0 \<lparr>eig_real = [5], nreal = 3\<rparr>
     = (True, \<lparr>eig_real = [5], nreal = 0\<rparr>)
   \<and> eigensolveroots_laguerre gep_fail Double 1 \<lparr>eig_real = [5], nreal = 3\<rparr>
     = (True, \<lparr>eig_real = [5, 2], nreal = 1\<rparr>)
   \<and> eig_real (snd (eigensolveroots_laguerre gep_fail Double 0 \<lparr>eig_real = [5], nreal = 3\<rparr>))
       \<noteq> []
   \<and> eig_real (snd (eigensolveroots_laguerre gep_fail Double 1 \<lparr>eig_real = [5], nreal = 3\<rparr>))
       \<noteq> [2]
   \<and> eigensolveroots_laguerre (gep_const quadratic_lambda) Double 2 \<lparr>eig_real = [5], nreal = 3\<rparr>
     = (True, \<lparr>eig_real = [- 1, 1], nreal = 2\<rparr>)"
  by (simp add: eigensolveroots_laguerre_def push_back_def Let_def split_def gep_const_def
      pack_quadratic_used)

end
